theory Spec2Isabelle
  imports Complex_Main "HOL-Library.AList" "HOL-Library.Word" "HOL-Library.Log_Nat"
begin

section \<open>Python strings\<close>

text \<open>
  A Python string is a sequence of Unicode code points, here natural numbers. What
  \<open>str.upper\<close>, \<open>str.strip\<close>, \<open>str.isdigit\<close>, \<open>int\<close> and the classes \<open>\w\<close>, \<open>\d\<close> and \<open>\b\<close> of \<open>re\<close>
  do with the code points below 128 is written out in the definitions. For the code points
  from 128 on it is read from the Unicode character database of the interpreter, which
  differs between Python versions and is a parameter of the model:
  \<^item> \<open>u_alnum c\<close>: \<open>str.isalnum\<close> holds of the character;
  \<^item> \<open>u_decimal c\<close>: the value of a decimal digit (category Nd), \<open>None\<close> for any other character;
  \<^item> \<open>u_digit c\<close>: \<open>str.isdigit\<close> holds of the character;
  \<^item> \<open>u_space c\<close>: \<open>str.isspace\<close> holds of the character;
  \<^item> \<open>u_upper c\<close>: the upper-case mapping of the character, which may be several characters;
  \<^item> \<open>int_max_str_digits\<close>: the value of \<open>sys.get_int_max_str_digits()\<close>, with 0 for an
    interpreter without that limit.
\<close>

type_synonym ustr = "nat list"

record python =
  u_alnum :: "nat \<Rightarrow> bool"
  u_decimal :: "nat \<Rightarrow> nat option"
  u_digit :: "nat \<Rightarrow> bool"
  u_space :: "nat \<Rightarrow> bool"
  u_upper :: "nat \<Rightarrow> ustr"
  int_max_str_digits :: nat

text \<open>The code points of a string literal of the source, all of which are ASCII.\<close>

definition cps :: "string \<Rightarrow> ustr" where
  "cps s = map of_char s"

text \<open>The decimal value of a character that \<open>\d\<close> matches and \<open>int\<close> reads as a digit.\<close>

definition decimal_value :: "python \<Rightarrow> nat \<Rightarrow> nat option" where
  "decimal_value py c =
     (if c < 128 then (if 48 \<le> c \<and> c \<le> 57 then Some (c - 48) else None) else u_decimal py c)"

definition is_decimal :: "python \<Rightarrow> nat \<Rightarrow> bool" where
  "is_decimal py c = (decimal_value py c \<noteq> None)"

text \<open>\<open>\w\<close> in a \<open>str\<close> pattern: an alphanumeric character or the underscore.\<close>

definition is_word :: "python \<Rightarrow> nat \<Rightarrow> bool" where
  "is_word py c =
     (if c < 128
      then (65 \<le> c \<and> c \<le> 90) \<or> (97 \<le> c \<and> c \<le> 122) \<or> (48 \<le> c \<and> c \<le> 57) \<or> c = 95
      else u_alnum py c)"

text \<open>\<open>str.upper\<close> maps every character on its own.\<close>

definition upper_char :: "python \<Rightarrow> nat \<Rightarrow> ustr" where
  "upper_char py c =
     (if c < 128 then [if 97 \<le> c \<and> c \<le> 122 then c - 32 else c] else u_upper py c)"

definition upper :: "python \<Rightarrow> ustr \<Rightarrow> ustr" where
  "upper py s = concat (map (upper_char py) s)"

section \<open>The regular expressions of the page classifier\<close>

text \<open>
  The sheet-number patterns are all of one shape: a word boundary \<open>\b\<close>, then a
  sequence of character classes, each taken once or optionally (\<open>?\<close>). A class is a
  set of literal characters and ranges, as between \<open>[\<close> and \<open>]\<close>, or \<open>\d\<close>. Note that
  \<open>[ -.]\<close> is the range from the space to the full stop.
\<close>

datatype cls = Lit char | Range char char | Digit

datatype item = One "cls list" | Opt "cls list"

fun in_cls :: "python \<Rightarrow> cls \<Rightarrow> nat \<Rightarrow> bool" where
  "in_cls py (Lit a) c = (c = of_char a)"
| "in_cls py (Range a b) c = (of_char a \<le> c \<and> c \<le> of_char b)"
| "in_cls py Digit c = is_decimal py c"

definition in_set :: "python \<Rightarrow> cls list \<Rightarrow> nat \<Rightarrow> bool" where
  "in_set py cs c = (\<exists>k \<in> set cs. in_cls py k c)"

text \<open>\<open>match_here py p s\<close>: the items \<open>p\<close> match a prefix of \<open>s\<close> (with backtracking over \<open>?\<close>).\<close>

fun match_here :: "python \<Rightarrow> item list \<Rightarrow> ustr \<Rightarrow> bool" where
  "match_here py [] s = True"
| "match_here py (One cs # r) [] = False"
| "match_here py (One cs # r) (x # xs) = (in_set py cs x \<and> match_here py r xs)"
| "match_here py (Opt cs # r) [] = match_here py r []"
| "match_here py (Opt cs # r) (x # xs) =
     ((in_set py cs x \<and> match_here py r xs) \<or> match_here py r (x # xs))"

text \<open>\<open>\b\<close> holds between two positions of which exactly one is a word character;
  the outside of the string counts as a non-word character.\<close>

definition is_word_opt :: "python \<Rightarrow> nat option \<Rightarrow> bool" where
  "is_word_opt py c = (case c of None \<Rightarrow> False | Some x \<Rightarrow> is_word py x)"

definition boundary :: "python \<Rightarrow> nat option \<Rightarrow> nat option \<Rightarrow> bool" where
  "boundary py prev nxt = (is_word_opt py prev \<noteq> is_word_opt py nxt)"

text \<open>\<open>search_from py p prev s\<close>: \<open>\b\<close> followed by \<open>p\<close> matches at some position of \<open>s\<close>,
  where \<open>prev\<close> is the character before \<open>s\<close>.\<close>

fun search_from :: "python \<Rightarrow> item list \<Rightarrow> nat option \<Rightarrow> ustr \<Rightarrow> bool" where
  "search_from py p prev [] = (boundary py prev None \<and> match_here py p [])"
| "search_from py p prev (x # xs) =
     ((boundary py prev (Some x) \<and> match_here py p (x # xs)) \<or> search_from py p (Some x) xs)"

definition re_search :: "python \<Rightarrow> item list \<Rightarrow> ustr \<Rightarrow> bool" where
  "re_search py p s = search_from py p None s"

text \<open>\<open>w in s\<close> on strings: \<open>w\<close> occurs in \<open>s\<close> as a contiguous substring.\<close>

fun starts_with :: "ustr \<Rightarrow> ustr \<Rightarrow> bool" where
  "starts_with s [] = True"
| "starts_with [] (w # ws) = False"
| "starts_with (c # s) (w # ws) = (c = w \<and> starts_with s ws)"

fun str_in :: "ustr \<Rightarrow> ustr \<Rightarrow> bool" where
  "str_in w [] = (w = [])"
| "str_in w (c # s) = (starts_with (c # s) w \<or> str_in w s)"

section \<open>The page classifier\<close>

datatype exn = ValueError string | OtherError string

fun str_exn :: "exn \<Rightarrow> string" where
  "str_exn (ValueError m) = m"
| "str_exn (OtherError m) = m"

text \<open>
  A page, as \<open>classify_page\<close> sees it: the outcome of the text extraction clipped to
  the bottom-right corner (which includes reading \<open>page.rect\<close>) and of the extraction of
  the whole page. Each either raises or returns a string or \<open>None\<close>.
\<close>

record page =
  get_text_clip :: "exn + ustr option"
  get_text_full :: "exn + ustr option"

definition sep :: "cls list" where
  "sep = [Range CHR '' '' CHR ''.'']"

text \<open>The dictionary \<open>patterns\<close>, in its insertion order.\<close>

definition patterns :: "(string \<times> item list) list" where
  "patterns =
    [(''cover_title'', [One [Lit CHR ''G''], Opt sep, One [Digit]]),
     (''architectural'', [One [Lit CHR ''A''], Opt sep, One [Digit]]),
     (''structural'', [One [Lit CHR ''S''], Opt sep, One [Digit]]),
     (''mechanical'', [One [Lit CHR ''M''], Opt sep, One [Digit]]),
     (''electrical'', [One [Lit CHR ''E''], Opt sep, One [Digit]]),
     (''plumbing'', [One [Lit CHR ''P''], Opt sep, One [Digit]]),
     (''landscape'', [One [Lit CHR ''L''], Opt sep, One [Digit]]),
     (''civil'', [One [Lit CHR ''C''], Opt sep, One [Digit]]),
     (''fire_safety'', [One [Lit CHR ''F''], Opt [Lit CHR ''P''], Opt sep, One [Digit]])]"

definition discipline_keywords :: "(string \<times> string list) list" where
  "discipline_keywords =
    [(''fire_safety'', [''FIRE PROTECTION'', ''FIRE ALARM'', ''SPRINKLER'', ''EGRESS'']),
     (''mechanical'', [''HVAC'', ''MECHANICAL'', ''DUCTWORK'']),
     (''electrical'', [''ELECTRICAL'', ''LIGHTING'', ''PANEL'', ''ONE-LINE'']),
     (''plumbing'', [''PLUMBING'', ''SANITARY'', ''STORM DRAIN'', ''RISER DIAGRAM'']),
     (''civil'', [''CIVIL'', ''GRADING'', ''UTILITIES'', ''SITE PLAN'']),
     (''architectural'', [''FLOOR PLAN'', ''ELEVATION'', ''ARCHITECTURAL'']),
     (''structural'', [''STRUCTURAL'', ''FOUNDATION'', ''FRAMING'']),
     (''landscape'', [''LANDSCAPE'', ''PLANTING'', ''IRRIGATION''])]"

definition general :: "(string \<times> string list) list" where
  "general =
    [(''cover_title'', [''COVER'', ''SHEET INDEX'', ''GENERAL NOTES'', ''LEGEND'', ''ABBREVIATIONS'']),
     (''schedules'', [''SCHEDULE'', ''DOOR SCHEDULE'', ''WINDOW SCHEDULE'', ''FINISH SCHEDULE'']),
     (''details'', [''DETAIL'', ''CONNECTION'', ''ASSEMBLY'', ''SECTION DETAIL''])]"

text \<open>The loop \<open>for k, pat in patterns.items(): if re.search(pat, text): return k\<close>;
  \<open>None\<close> when the loop ends without returning.\<close>

fun first_pattern :: "python \<Rightarrow> (string \<times> item list) list \<Rightarrow> ustr \<Rightarrow> string option" where
  "first_pattern py [] text = None"
| "first_pattern py ((k, pat) # rest) text =
     (if re_search py pat text then Some k else first_pattern py rest text)"

text \<open>The loop \<open>for k, words in table.items(): if any(w in text for w in words): return k\<close>.\<close>

fun first_keyword :: "(string \<times> string list) list \<Rightarrow> ustr \<Rightarrow> string option" where
  "first_keyword [] text = None"
| "first_keyword ((k, ws) # rest) text =
     (if \<exists>w \<in> set ws. str_in (cps w) text then Some k else first_keyword rest text)"

text \<open>The body of \<open>classify_page\<close> after the two texts are known.\<close>

definition classify_text :: "python \<Rightarrow> ustr \<Rightarrow> ustr \<Rightarrow> string" where
  "classify_text py corner_text full_text =
     (case first_pattern py patterns corner_text of Some k \<Rightarrow> k
      | None \<Rightarrow>
     (case first_pattern py patterns full_text of Some k \<Rightarrow> k
      | None \<Rightarrow>
     (case first_keyword discipline_keywords full_text of Some k \<Rightarrow> k
      | None \<Rightarrow>
     (case first_keyword general full_text of Some k \<Rightarrow> k
      | None \<Rightarrow> ''other''))))"

definition or_empty :: "ustr option \<Rightarrow> ustr" where
  "or_empty t = (case t of None \<Rightarrow> [] | Some s \<Rightarrow> s)"

text \<open>The \<open>try\<close> block: if either extraction raises, both texts are empty.\<close>

definition page_texts :: "python \<Rightarrow> page \<Rightarrow> ustr \<times> ustr" where
  "page_texts py pg =
     (case get_text_clip pg of Inl e \<Rightarrow> ([], [])
      | Inr c \<Rightarrow>
     (case get_text_full pg of Inl e \<Rightarrow> ([], [])
      | Inr f \<Rightarrow> (upper py (or_empty c), upper py (or_empty f))))"

definition classify_page :: "python \<Rightarrow> page \<Rightarrow> string" where
  "classify_page py pg = (case page_texts py pg of (corner_text, full_text) \<Rightarrow>
     classify_text py corner_text full_text)"

section \<open>The job record and the registry\<close>

type_synonym bytes = "8 word list"

text \<open>
  A job is the dictionary stored in \<open>jobs\<close> under the job id. The key
  \<open>output_buffer\<close> is absent until the job is done: \<open>None\<close> stands for an absent key
  (which \<open>job.get\<close> reads as \<open>None\<close>). Time stamps are the values of \<open>time.time()\<close>,
  taken as exact reals.
\<close>

record job =
  status :: string
  progress :: int
  created_at :: real
  input_path :: string
  output_buffer :: "bytes option"
  error :: "string option"

text \<open>The dictionary \<open>jobs\<close>, in insertion order, with one entry per key.\<close>

type_synonym registry = "(string \<times> job) list"

text \<open>The record that \<open>compress\<close> stores for a new job.\<close>

definition new_job :: "real \<Rightarrow> string \<Rightarrow> job" where
  "new_job now inp_path =
     \<lparr>status = ''queued'', progress = 0, created_at = now, input_path = inp_path,
      output_buffer = None, error = None\<rparr>"

section \<open>Parsing the page list in \<open>compress\<close>\<close>

text \<open>White space as \<open>str.strip\<close> sees it, and the characters that \<open>str.isdigit\<close> accepts.\<close>

definition is_space :: "python \<Rightarrow> nat \<Rightarrow> bool" where
  "is_space py c =
     (if c < 128 then (9 \<le> c \<and> c \<le> 13) \<or> (28 \<le> c \<and> c \<le> 32) else u_space py c)"

definition is_digit :: "python \<Rightarrow> nat \<Rightarrow> bool" where
  "is_digit py c = (if c < 128 then 48 \<le> c \<and> c \<le> 57 else u_digit py c)"

definition strip :: "python \<Rightarrow> ustr \<Rightarrow> ustr" where
  "strip py s = rev (dropWhile (is_space py) (rev (dropWhile (is_space py) s)))"

definition isdigit :: "python \<Rightarrow> ustr \<Rightarrow> bool" where
  "isdigit py s = (s \<noteq> [] \<and> (\<forall>c \<in> set s. is_digit py c))"

text \<open>\<open>s.split(",")\<close>: the pieces between the commas; there is always at least one.\<close>

fun split_comma :: "ustr \<Rightarrow> ustr list" where
  "split_comma [] = [[]]"
| "split_comma (c # s) =
     (if c = 44 then [] # split_comma s
      else (case split_comma s of t # ts \<Rightarrow> (c # t) # ts | [] \<Rightarrow> [[c]]))"

text \<open>
  \<open>int(p)\<close> on a string. White space around the literal is skipped; of the ASCII characters
  \<open>int\<close> takes only the tab, the line feed, the vertical tab, the form feed, the carriage
  return and the space as white space, not the separators 28 to 31 that \<open>str.strip\<close>
  removes. Then come an optional sign and decimal digits, with single underscores allowed
  between digits. A literal of more than 640 digits that exceeds the interpreter's limit
  is refused. Both failures raise \<open>ValueError\<close>; the message is cut short here (Python
  goes on with the \<open>repr\<close> of the string, or with the number of digits).
\<close>

definition int_space :: "python \<Rightarrow> nat \<Rightarrow> bool" where
  "int_space py c = (if c < 128 then (9 \<le> c \<and> c \<le> 13) \<or> c = 32 else u_space py c)"

fun digit_values :: "python \<Rightarrow> ustr \<Rightarrow> nat list option" where
  "digit_values py [] = None"
| "digit_values py [c] = map_option (\<lambda>d. [d]) (decimal_value py c)"
| "digit_values py (c # u # s) =
     (case decimal_value py c of
        None \<Rightarrow> None
      | Some d \<Rightarrow>
          map_option (\<lambda>ds. d # ds)
            (if u = 95 then digit_values py s else digit_values py (u # s)))"

definition py_int :: "python \<Rightarrow> ustr \<Rightarrow> exn + int" where
  "py_int py p =
     (let body = rev (dropWhile (int_space py) (rev (dropWhile (int_space py) p)));
          negative = (body \<noteq> [] \<and> hd body = 45);
          digits = (if body \<noteq> [] \<and> (hd body = 45 \<or> hd body = 43) then tl body else body)
      in case digit_values py digits of
           None \<Rightarrow> Inl (ValueError ''invalid literal for int() with base 10'')
         | Some ds \<Rightarrow>
             if 640 < length ds \<and> 0 < int_max_str_digits py \<and> int_max_str_digits py < length ds
             then Inl (ValueError ''Exceeds the limit for integer string conversion'')
             else Inr ((if negative then - 1 else 1) * int (foldl (\<lambda>a d. 10 * a + d) 0 ds)))"

text \<open>The list comprehension \<open>[int(p) for p in ...]\<close>: the first \<open>int\<close> that raises ends it.\<close>

fun int_all :: "python \<Rightarrow> ustr list \<Rightarrow> exn + int list" where
  "int_all py [] = Inr []"
| "int_all py (p # ps) =
     (case py_int py p of
        Inl e \<Rightarrow> Inl e
      | Inr v \<Rightarrow> (case int_all py ps of Inl e \<Rightarrow> Inl e | Inr vs \<Rightarrow> Inr (v # vs)))"

definition parse_extract_pages :: "python \<Rightarrow> ustr \<Rightarrow> exn + int list" where
  "parse_extract_pages py form_value =
     (let extract_pages_str = strip py form_value in
      if extract_pages_str \<noteq> []
      then int_all py (filter (\<lambda>p. isdigit py (strip py p)) (split_comma extract_pages_str))
      else Inr [])"

text \<open>
  The part of \<open>compress\<close> from the page list on, for a request whose other form fields were
  read and whose upload was saved without an exception. If reading the page list raises,
  the handler answers 500 with the message and no job is registered; otherwise the job is
  registered and the page list is handed to \<open>process_job\<close>.
\<close>

definition compress :: "python \<Rightarrow> registry \<Rightarrow> string \<Rightarrow> real \<Rightarrow> string \<Rightarrow> ustr
    \<Rightarrow> (nat \<times> string) + (registry \<times> int list)" where
  "compress py jobs job_id now inp_path form_value =
     (case parse_extract_pages py form_value of
        Inl e \<Rightarrow> Inl (500, str_exn e)
      | Inr extract_pages \<Rightarrow>
          Inr (AList.update job_id (new_job now inp_path) jobs, extract_pages))"

section \<open>Binary floating point\<close>

text \<open>
  A Python \<open>float\<close> is an IEEE 754 binary64 number. \<open>round_double x\<close> is the binary64 number
  nearest to the rational \<open>x\<close>, with ties going to the even significand: significands have 53
  bits, and below \<open>2 powi (- 1022)\<close> the spacing stays at \<open>2 powi (- 1074)\<close> (subnormal numbers).
  Overflow is left out: the definition is the operation for results below \<open>2 powi 1024\<close>,
  and the values rounded here are at most 60. The true division of two integers and the
  product of two floats are each the exact result rounded once.
\<close>

definition half_even :: "rat \<Rightarrow> int" where
  "half_even y =
     (let f = \<lfloor>y\<rfloor>; d = y - of_int f
      in if d < 1 / 2 then f else if 1 / 2 < d then f + 1 else if even f then f else f + 1)"

text \<open>\<open>ilog2 x\<close> is the \<open>k\<close> with \<open>2 powi k \<le> x < 2 powi (k + 1)\<close>, for positive \<open>x\<close>.\<close>

definition ilog2 :: "rat \<Rightarrow> int" where
  "ilog2 x = (if 1 \<le> x then bitlen \<lfloor>x\<rfloor> - 1 else - bitlen (\<lceil>1 / x\<rceil> - 1))"

definition double_exp :: "rat \<Rightarrow> int" where
  "double_exp x = max (- 1074) (ilog2 x - 52)"

definition round_double :: "rat \<Rightarrow> rat" where
  "round_double x =
     (if x = 0 then 0
      else sgn x * of_int (half_even (\<bar>x\<bar> / 2 powi double_exp \<bar>x\<bar>)) * 2 powi double_exp \<bar>x\<bar>)"

text \<open>\<open>int(x)\<close> on a float cuts off the fraction.\<close>

definition float_to_int :: "rat \<Rightarrow> int" where
  "float_to_int x = (if 0 \<le> x then \<lfloor>x\<rfloor> else \<lceil>x\<rceil>)"

text \<open>Line 775: \<open>int((idx / max(1, total)) * 60)\<close>.\<close>

definition ramp60 :: "nat \<Rightarrow> nat \<Rightarrow> int" where
  "ramp60 idx tot =
     float_to_int (round_double (round_double (of_nat idx / of_nat (max 1 tot)) * 60))"

section \<open>The outside world of a job\<close>

datatype image_outcome = NoImage | Recompressed | ImageError exn

text \<open>
  What the libraries and the operating system do during one run of \<open>process_job\<close>:
  \<^item> \<open>open_src\<close>: \<open>fitz.open(input_pdf)\<close> raises, or the document has so many pages;
  \<^item> \<open>insert_pdf p links\<close>: copying page \<open>p\<close> with or without links raises or not;
  \<^item> \<open>collect_xrefs\<close>: the unique image xrefs of the work document;
  \<^item> \<open>image_step x\<close>: the body of the image loop for xref \<open>x\<close> finds no image bytes
    (\<open>continue\<close>), replaces the stream, or raises (caught and logged);
  \<^item> \<open>save_work\<close>: \<open>work.save\<close> raises or yields the bytes;
  \<^item> \<open>which\<close>: \<open>shutil.which\<close>;
  \<^item> \<open>popen cmd input\<close>: \<open>Popen\<close> and \<open>communicate\<close> raise, or give return code, standard
    output and standard error;
  \<^item> \<open>pike\<close>: the body of the \<open>try\<close> in \<open>pikepdf_optimize\<close> raises or yields the bytes.
\<close>

record env =
  open_src :: "exn + nat"
  insert_pdf :: "int \<Rightarrow> bool \<Rightarrow> exn option"
  collect_xrefs :: "exn + nat list"
  image_step :: "nat \<Rightarrow> image_outcome"
  save_work :: "exn + bytes"
  which :: "string \<Rightarrow> string option"
  popen :: "string list \<Rightarrow> bytes \<Rightarrow> exn + (int \<times> bytes \<times> bytes)"
  pike :: "bytes \<Rightarrow> exn + bytes"

section \<open>The external tools\<close>

fun find_ghostscript_exe_in :: "env \<Rightarrow> string list \<Rightarrow> string option" where
  "find_ghostscript_exe_in E [] = None"
| "find_ghostscript_exe_in E (c # cs) =
     (case which E c of
        Some path \<Rightarrow> if path \<noteq> [] then Some path else find_ghostscript_exe_in E cs
      | None \<Rightarrow> find_ghostscript_exe_in E cs)"

definition find_ghostscript_exe :: "env \<Rightarrow> string option" where
  "find_ghostscript_exe E = find_ghostscript_exe_in E [''gs'', ''gswin64c'', ''gswin32c'']"

definition gs_base_cmd :: "string \<Rightarrow> string list" where
  "gs_base_cmd gs_exe =
     [gs_exe, ''-sDEVICE=pdfwrite'', ''-dNOPAUSE'', ''-dQUIET'', ''-dBATCH'',
      ''-sOutputFile=%stdout'', ''-dDetectDuplicateImages=true'',
      ''-dColorImageDownsampleType=/Bicubic'', ''-dGrayImageDownsampleType=/Bicubic'',
      ''-dMonoImageDownsampleType=/Subsample'']"

definition gs_extreme_flags :: "string list" where
  "gs_extreme_flags =
     [''-dCompatibilityLevel=1.6'', ''-dPDFSETTINGS=/screen'', ''-dSubsetFonts=true'',
      ''-dCompressFonts=true'', ''-dAutoFilterMonoImages=false'',
      ''-sMonoImageFilter=/JBIG2Encode'', ''-dDownsampleColorImages=true'',
      ''-dDownsampleGrayImages=true'', ''-dDownsampleMonoImages=true'',
      ''-dColorImageResolution=72'', ''-dGrayImageResolution=72'',
      ''-dMonoImageResolution=300'']"

definition gs_balanced_flags :: "string list" where
  "gs_balanced_flags =
     [''-dCompatibilityLevel=1.6'', ''-dPDFSETTINGS=/ebook'', ''-dSubsetFonts=true'',
      ''-dCompressFonts=true'', ''-dDownsampleColorImages=true'',
      ''-dDownsampleGrayImages=true'', ''-dDownsampleMonoImages=true'',
      ''-dColorImageResolution=150'', ''-dGrayImageResolution=150'',
      ''-dMonoImageResolution=600'']"

text \<open>The command that is run: \<open>cmd + ["-"]\<close>.\<close>

definition gs_cmd :: "string \<Rightarrow> bool \<Rightarrow> string list" where
  "gs_cmd gs_exe extreme =
     (gs_base_cmd gs_exe @ (if extreme then gs_extreme_flags else gs_balanced_flags)) @ [''-'']"

definition ghostscript_compress :: "env \<Rightarrow> bytes \<Rightarrow> bool \<Rightarrow> bytes" where
  "ghostscript_compress E input_bytes extreme =
     (case find_ghostscript_exe E of
        None \<Rightarrow> input_bytes
      | Some gs_exe \<Rightarrow>
          (case popen E (gs_cmd gs_exe extreme) input_bytes of
             Inl e \<Rightarrow> input_bytes
           | Inr (returncode, out, err) \<Rightarrow>
               if returncode \<noteq> 0 then input_bytes
               else if out \<noteq> [] then out else input_bytes))"

definition pikepdf_optimize :: "env \<Rightarrow> bytes \<Rightarrow> bytes" where
  "pikepdf_optimize E input_bytes =
     (case pike E input_bytes of Inl e \<Rightarrow> input_bytes | Inr out \<Rightarrow> out)"

section \<open>The pipeline\<close>

text \<open>Decimal numerals, as \<open>str\<close> and the format strings print a non-negative integer.\<close>

function str_nat :: "nat \<Rightarrow> string" where
  "str_nat n = (if n < 10 then [char_of (48 + n)]
                else str_nat (n div 10) @ [char_of (48 + n mod 10)])"
  by pat_completeness auto
termination
  by (relation "measure id") auto

declare str_nat.simps [simp del]

text \<open>
  The state of a run: the job record as it is now, every value the record has had, oldest
  first and ending with the current one, and the warnings and errors logged by
  \<open>process_job\<close> itself. (Its \<open>logger.info\<close> calls and the logging inside the external
  tools are left out; the extreme-mode cleanup, which touches only the work document and
  the log, is represented by its two writes to the job record.)
\<close>

datatype level = WARNING | ERROR

record pstate =
  cur :: job
  hist :: "job list"
  logs :: "(level \<times> string) list"

definition init_state :: "job \<Rightarrow> pstate" where
  "init_state j = \<lparr>cur = j, hist = [j], logs = []\<rparr>"

definition put :: "(job \<Rightarrow> job) \<Rightarrow> pstate \<Rightarrow> pstate" where
  "put f st = st\<lparr>cur := f (cur st), hist := hist st @ [f (cur st)]\<rparr>"

definition set_status :: "string \<Rightarrow> pstate \<Rightarrow> pstate" where
  "set_status s = put (\<lambda>j. j\<lparr>status := s\<rparr>)"

definition set_progress :: "int \<Rightarrow> pstate \<Rightarrow> pstate" where
  "set_progress p = put (\<lambda>j. j\<lparr>progress := p\<rparr>)"

definition log_msg :: "level \<Rightarrow> string \<Rightarrow> pstate \<Rightarrow> pstate" where
  "log_msg l m st = st\<lparr>logs := logs st @ [(l, m)]\<rparr>"

text \<open>Lines 687 to 695: the pages to keep and the status label, or the error raised.\<close>

definition select_keep :: "int list option \<Rightarrow> nat \<Rightarrow> exn + (int list \<times> string)" where
  "select_keep extract_pages page_count =
     (case extract_pages of
        Some (x # xs) \<Rightarrow>
          (let keep = map (\<lambda>p. p - 1) (x # xs);
               keep = filter (\<lambda>p. 0 \<le> p \<and> p < int page_count) keep
           in if keep = [] then Inl (ValueError ''No valid pages selected.'')
              else Inr (keep, ''Extracting '' @ str_nat (length keep) @ '' selected pages...''))
      | _ \<Rightarrow> Inr (map int [0..<page_count], ''Processing all pages...''))"

definition link_warning :: "int \<Rightarrow> exn \<Rightarrow> string" where
  "link_warning p e =
     ''Page '' @ str_nat (nat (p + 1)) @
     '' has invalid link metadata; copying without links ('' @ str_exn e @ '')''"

text \<open>The loop over \<open>keep\<close>: the exception that leaves the loop, if any.\<close>

fun copy_pages :: "env \<Rightarrow> int list \<Rightarrow> pstate \<Rightarrow> exn option \<times> pstate" where
  "copy_pages E [] st = (None, st)"
| "copy_pages E (p # ps) st =
     (case insert_pdf E p True of
        None \<Rightarrow> copy_pages E ps st
      | Some (ValueError m) \<Rightarrow>
          (let st' = log_msg WARNING (link_warning p (ValueError m)) st
           in case insert_pdf E p False of
                None \<Rightarrow> copy_pages E ps st'
              | Some e \<Rightarrow> (Some e, st'))
      | Some e \<Rightarrow> (Some e, st))"

text \<open>The image loop \<open>for idx, xref in enumerate(xrefs, start=1)\<close>.\<close>

fun recompress_images :: "env \<Rightarrow> nat \<Rightarrow> nat \<Rightarrow> nat list \<Rightarrow> pstate \<Rightarrow> pstate" where
  "recompress_images E tot idx [] st = st"
| "recompress_images E tot idx (xref # rest) st =
     (case image_step E xref of
        NoImage \<Rightarrow> recompress_images E tot (idx + 1) rest st
      | Recompressed \<Rightarrow>
          recompress_images E tot (idx + 1) rest (set_progress (20 + ramp60 idx tot) st)
      | ImageError e \<Rightarrow>
          recompress_images E tot (idx + 1) rest
            (set_progress (20 + ramp60 idx tot)
              (log_msg WARNING (''Image xref '' @ str_nat xref @ '' recompress skipped: '' @ str_exn e) st)))"

text \<open>The block \<open>with fitz.open() as work\<close>: the saved bytes, or the exception.\<close>

definition work_stage :: "env \<Rightarrow> int list \<Rightarrow> bool \<Rightarrow> pstate \<Rightarrow> (exn + bytes) \<times> pstate" where
  "work_stage E keep extreme_compression st0 =
     (case copy_pages E keep st0 of
        (Some e, st1) \<Rightarrow> (Inl e, st1)
      | (None, st1) \<Rightarrow>
          (let st2 = (if extreme_compression
                      then set_progress 15 (set_status ''Cleaning annotations & attachments...'' st1)
                      else st1);
               st3 = set_progress 20 (set_status ''Recompressing images...'' st2)
           in case collect_xrefs E of
                Inl e \<Rightarrow> (Inl e, st3)
              | Inr xrefs \<Rightarrow>
                  (let st4 = recompress_images E (length xrefs) 1 xrefs st3;
                       st5 = set_progress 82 (set_status ''Saving (PyMuPDF)...'' st4)
                   in case save_work E of
                        Inl e \<Rightarrow> (Inl e, st5)
                      | Inr pymupdf_bytes \<Rightarrow> (Inr pymupdf_bytes, st5))))"

definition finish :: "bytes \<Rightarrow> job \<Rightarrow> job" where
  "finish final_bytes j =
     j\<lparr>status := ''done'', progress := 100, output_buffer := Some final_bytes, error := None\<rparr>"

text \<open>The body of the \<open>try\<close> of \<open>process_job\<close>.\<close>

definition run_pipeline :: "env \<Rightarrow> int list option \<Rightarrow> bool \<Rightarrow> pstate \<Rightarrow> exn option \<times> pstate" where
  "run_pipeline E extract_pages extreme_compression st0 =
     (let st1 = set_progress 5 (set_status ''Initializing...'' st0)
      in case open_src E of
           Inl e \<Rightarrow> (Some e, st1)
         | Inr page_count \<Rightarrow>
             (case select_keep extract_pages page_count of
                Inl e \<Rightarrow> (Some e, st1)
              | Inr (keep, status_label) \<Rightarrow>
                  (let st2 = set_progress 10 (set_status status_label st1)
                   in case work_stage E keep extreme_compression st2 of
                        (Inl e, st3) \<Rightarrow> (Some e, st3)
                      | (Inr pymupdf_bytes, st3) \<Rightarrow>
                          (let st4 = set_progress 90
                                       (set_status ''Applying Ghostscript compression...'' st3);
                               gs_bytes = ghostscript_compress E pymupdf_bytes extreme_compression;
                               st5 = set_progress 95
                                       (set_status ''Optimizing final PDF structure...'' st4);
                               final_bytes = pikepdf_optimize E gs_bytes
                           in (None, put (finish final_bytes) st5)))))"

definition fail :: "exn \<Rightarrow> job \<Rightarrow> job" where
  "fail e j = j\<lparr>status := ''error'', error := Some (str_exn e)\<rparr>"

text \<open>
  \<open>process_job\<close>: the \<open>try\<close> and its handler. The arguments \<open>quality\<close>, \<open>max_dimension\<close> and
  \<open>drawing_mode\<close> only reach the image loop, whose outcome is part of the environment.
\<close>

definition process_job :: "env \<Rightarrow> int list option \<Rightarrow> bool \<Rightarrow> pstate \<Rightarrow> pstate" where
  "process_job E extract_pages extreme_compression st0 =
     (case run_pipeline E extract_pages extreme_compression st0 of
        (None, st) \<Rightarrow> st
      | (Some e, st) \<Rightarrow> put (fail e) (log_msg ERROR (''Job failed: '' @ str_exn e) st))"

section \<open>Status, download and the eviction sweep\<close>

text \<open>The two routes answer with a 404 and a message, or with their payload.\<close>

definition status_route :: "registry \<Rightarrow> string \<Rightarrow> (nat \<times> string) + (string \<times> int \<times> string option)" where
  "status_route jobs job_id =
     (case map_of jobs job_id of
        None \<Rightarrow> Inl (404, ''Job not found'')
      | Some j \<Rightarrow> Inr (status j, progress j, error j))"

definition download_route :: "registry \<Rightarrow> string \<Rightarrow> (nat \<times> string) + bytes" where
  "download_route jobs job_id =
     (case map_of jobs job_id of
        None \<Rightarrow> Inl (404, ''File not ready or found'')
      | Some j \<Rightarrow>
          (case output_buffer j of
             None \<Rightarrow> Inl (404, ''File not ready or found'')
           | Some buf \<Rightarrow>
               if status j \<noteq> ''done'' then Inl (404, ''File not ready or found'') else Inr buf))"

text \<open>
  The file system is the set of paths that exist; \<open>os_remove p\<close> tells whether
  \<open>os.remove(p)\<close> raises. \<open>cleanup_temp_file\<close> catches that exception and logs a warning; the
  log holds the records of level \<open>WARNING\<close> and above, oldest first.
\<close>

type_synonym world = "registry \<times> string set \<times> (level \<times> string) list"

definition cleanup_failed :: "string \<Rightarrow> exn \<Rightarrow> string" where
  "cleanup_failed filepath e = ''Failed to cleanup temp file '' @ filepath @ '': '' @ str_exn e"

definition cleanup_temp_file :: "(string \<Rightarrow> exn option) \<Rightarrow> string option
    \<Rightarrow> string set \<times> (level \<times> string) list \<Rightarrow> string set \<times> (level \<times> string) list" where
  "cleanup_temp_file os_remove filepath fl =
     (case filepath of
        None \<Rightarrow> fl
      | Some p \<Rightarrow>
          if p = [] then fl
          else if p \<in> fst fl
               then (case os_remove p of
                       None \<Rightarrow> (fst fl - {p}, snd fl)
                     | Some e \<Rightarrow> (fst fl, snd fl @ [(WARNING, cleanup_failed p e)]))
               else fl)"

text \<open>The loop \<open>for jid in to_remove\<close> of \<open>cleanup_old_jobs\<close>; \<open>after_pop\<close> is what the body does
  with the job it has popped.\<close>

definition after_pop :: "(string \<Rightarrow> exn option) \<Rightarrow> job
    \<Rightarrow> string set \<times> (level \<times> string) list \<Rightarrow> string set \<times> (level \<times> string) list" where
  "after_pop os_remove j fl =
     (if input_path j \<noteq> [] then cleanup_temp_file os_remove (Some (input_path j)) fl else fl)"

fun evict :: "(string \<Rightarrow> exn option) \<Rightarrow> string list \<Rightarrow> world \<Rightarrow> world" where
  "evict os_remove [] w = w"
| "evict os_remove (jid # rest) (jobs, fl) =
     (case map_of jobs jid of
        None \<Rightarrow> evict os_remove rest (jobs, fl)
      | Some j \<Rightarrow> evict os_remove rest (AList.delete jid jobs, after_pop os_remove j fl))"

definition to_remove :: "real \<Rightarrow> int \<Rightarrow> registry \<Rightarrow> string list" where
  "to_remove now max_age_sec jobs =
     map fst (filter (\<lambda>(jid, j). now - created_at j > real_of_int max_age_sec) jobs)"

definition cleanup_old_jobs :: "(string \<Rightarrow> exn option) \<Rightarrow> real \<Rightarrow> int \<Rightarrow> world \<Rightarrow> world" where
  "cleanup_old_jobs os_remove now max_age_sec w =
     evict os_remove (to_remove now max_age_sec (fst w)) w"

text \<open>The registry, the files and the log of a world.\<close>

definition jobs_of :: "world \<Rightarrow> registry" where
  "jobs_of w = fst w"

definition files_of :: "world \<Rightarrow> string set" where
  "files_of w = fst (snd w)"

definition log_of :: "world \<Rightarrow> (level \<times> string) list" where
  "log_of w = snd (snd w)"

section \<open>Image recompression\<close>










section \<open>Sample environments\<close>

text \<open>A run in which every library call succeeds and neither external tool is there.\<close>

definition ok_env :: env where
  "ok_env =
     \<lparr>open_src = Inr 3,
      insert_pdf = (\<lambda>p links. None),
      collect_xrefs = Inr [7, 9],
      image_step = (\<lambda>xref. Recompressed),
      save_work = Inr [37, 80, 68, 70],
      which = (\<lambda>c. None),
      popen = (\<lambda>cmd inp. Inl (OtherError ''No such file or directory'')),
      pike = (\<lambda>b. Inl (OtherError ''unable to find PDF header''))\<rparr>"

definition queued_job :: job where
  "queued_job = new_job 1000 ''/tmp/tmpab12.pdf''"

section \<open>Invariants of a run\<close>

text \<open>A job record that is neither done nor failed.\<close>

definition running_job :: "job \<Rightarrow> bool" where
  "running_job j =
     (status j \<noteq> ''done'' \<and> status j \<noteq> ''error'' \<and> output_buffer j = None \<and> error j = None)"

text \<open>Every value the record has had is a running one, and the history ends with the
  current value.\<close>

definition running_state :: "pstate \<Rightarrow> bool" where
  "running_state st =
     (hist st \<noteq> [] \<and> last (hist st) = cur st \<and> (\<forall>j \<in> set (hist st). running_job j))"

text \<open>The progress values written so far never went down and are at most \<open>b\<close>.\<close>

definition progress_state :: "int \<Rightarrow> pstate \<Rightarrow> bool" where
  "progress_state b st =
     (sorted (map progress (hist st)) \<and> (\<forall>j \<in> set (hist st). progress j \<le> progress (cur st))
      \<and> progress (cur st) \<le> b)"

text \<open>A one-page document whose page cannot be copied with links, for a reason other than a
  \<open>ValueError\<close>, although a copy without links would succeed.\<close>

definition bad_copy_env :: env where
  "bad_copy_env =
     ok_env\<lparr>open_src := Inr 1,
            insert_pdf := (\<lambda>p links. if links then Some (OtherError ''cannot find page tree'')
                                   else None)\<rparr>"

text \<open>A three-page document whose second page has a malformed link target.\<close>

definition bad_link_env :: env where
  "bad_link_env =
     ok_env\<lparr>insert_pdf := (\<lambda>p links. if links \<and> p = 1
                                   then Some (ValueError ''invalid literal for int()'')
                                   else None)\<rparr>"

text \<open>A source file that cannot be opened.\<close>

definition bad_open_env :: env where
  "bad_open_env = ok_env\<lparr>open_src := Inl (OtherError ''cannot open file'')\<rparr>"

text \<open>A registry with one job that has waited too long and one that has not, and the
  temporary files of both.\<close>

definition sample_jobs :: registry where
  "sample_jobs =
     [(''j1'', queued_job), (''j2'', new_job 4000 ''/tmp/tmpcd34.pdf'')]"

definition sample_files :: "string set" where
  "sample_files = {''/tmp/tmpab12.pdf'', ''/tmp/tmpcd34.pdf''}"

text \<open>A file system on which every removal succeeds, and one on which the files are
  locked.\<close>

definition remove_ok :: "string \<Rightarrow> exn option" where
  "remove_ok p = None"

definition remove_locked :: "string \<Rightarrow> exn option" where
  "remove_locked p = Some (OtherError ''Permission denied'')"



text \<open>
  The tables of CPython 3.11 (Unicode 14) on the code points from 128 to 255, and its
  default limit of 4300 digits. A code point from 256 on is taken as a symbol, which is
  wrong for most of them: the sample texts stay below 256.
\<close>

definition latin1 :: python where
  "latin1 =
     \<lparr>u_alnum = (\<lambda>c. c = 170 \<or> c = 178 \<or> c = 179 \<or> c = 181 \<or> c = 185 \<or> c = 186
                      \<or> (188 \<le> c \<and> c \<le> 190) \<or> (192 \<le> c \<and> c \<le> 214)
                      \<or> (216 \<le> c \<and> c \<le> 246) \<or> (248 \<le> c \<and> c \<le> 255)),
      u_decimal = (\<lambda>c. None),
      u_digit = (\<lambda>c. c = 178 \<or> c = 179 \<or> c = 185),
      u_space = (\<lambda>c. c = 133 \<or> c = 160),
      u_upper = (\<lambda>c. if c = 181 then [924] else if c = 223 then [83, 83]
                      else if c = 255 then [376]
                      else if (224 \<le> c \<and> c \<le> 246) \<or> (248 \<le> c \<and> c \<le> 254) then [c - 32]
                      else [c]),
      int_max_str_digits = 4300\<rparr>"

section \<open>Properties of the classifier\<close>


lemma first_pattern_first:
  "i < length ps \<Longrightarrow> re_search py (snd (ps ! i)) t \<Longrightarrow> (\<forall>j<i. \<not> re_search py (snd (ps ! j)) t)
   \<Longrightarrow> first_pattern py ps t = Some (fst (ps ! i))"
proof (induction ps arbitrary: i)
  case Nil
  then show ?case by simp
next
  case (Cons a ps)
  obtain k pat where a: "a = (k, pat)" by (cases a)
  show ?case
  proof (cases i)
    case 0
    with Cons.prems a show ?thesis by simp
  next
    case (Suc n)
    with Cons.prems have "\<not> re_search py pat t" using a by auto
    moreover from Suc Cons.prems have "first_pattern py ps t = Some (fst (ps ! n))"
      by (intro Cons.IH) auto
    ultimately show ?thesis using a Suc by simp
  qed
qed

lemma first_pattern_none:
  "(first_pattern py ps t = None) = (\<forall>j<length ps. \<not> re_search py (snd (ps ! j)) t)"
proof (induction ps)
  case Nil
  then show ?case by simp
next
  case (Cons a ps)
  obtain k pat where a: "a = (k, pat)" by (cases a)
  show ?case using Cons.IH a by (auto simp: less_Suc_eq_0_disj)
qed


lemma first_keyword_first:
  "i < length tb \<Longrightarrow> (\<exists>w \<in> set (snd (tb ! i)). str_in (cps w) t)
   \<Longrightarrow> (\<forall>j<i. \<not> (\<exists>w \<in> set (snd (tb ! j)). str_in (cps w) t))
   \<Longrightarrow> first_keyword tb t = Some (fst (tb ! i))"
proof (induction tb arbitrary: i)
  case Nil
  then show ?case by simp
next
  case (Cons a tb)
  obtain k ws where a: "a = (k, ws)" by (cases a)
  show ?case
  proof (cases i)
    case 0
    with Cons.prems a show ?thesis by simp
  next
    case (Suc n)
    with Cons.prems have "\<not> (\<exists>w \<in> set ws. str_in (cps w) t)" using a by auto
    moreover from Suc Cons.prems have "first_keyword tb t = Some (fst (tb ! n))"
      by (intro Cons.IH) auto
    ultimately show ?thesis using a Suc by simp
  qed
qed

lemma first_keyword_none:
  "(first_keyword tb t = None) = (\<forall>j<length tb. \<not> (\<exists>w \<in> set (snd (tb ! j)). str_in (cps w) t))"
proof (induction tb)
  case Nil
  then show ?case by simp
next
  case (Cons a tb)
  obtain k ws where a: "a = (k, ws)" by (cases a)
  show ?case using Cons.IH a by (auto simp: less_Suc_eq_0_disj)
qed

text \<open>
  Claim C1. \<open>classify_page\<close> tries the sheet-number patterns on the title-block text first,
  in the order cover_title, architectural, structural, mechanical, electrical, plumbing,
  landscape, civil, fire_safety. The label of the first pattern (in that order) that matches
  the title-block text is returned, whatever the full-page text is: any other page with the
  same title-block text gets the same label. Only when no pattern matches the title-block
  text is the label that of the first pattern matching the full-page text.
\<close>

theorem classify_page_title_block_first:
  assumes "page_texts py pg = (corner, full)"
  shows "(\<forall>i<length patterns.
            re_search py (snd (patterns ! i)) corner \<and> (\<forall>j<i. \<not> re_search py (snd (patterns ! j)) corner)
            \<longrightarrow> classify_page py pg = fst (patterns ! i)
                \<and> (\<forall>pg'. fst (page_texts py pg') = corner \<longrightarrow> classify_page py pg' = classify_page py pg))
       \<and> ((\<forall>j<length patterns. \<not> re_search py (snd (patterns ! j)) corner) \<longrightarrow>
          (\<forall>i<length patterns.
            re_search py (snd (patterns ! i)) full \<and> (\<forall>j<i. \<not> re_search py (snd (patterns ! j)) full)
            \<longrightarrow> classify_page py pg = fst (patterns ! i)))
       \<and> map fst patterns = [''cover_title'', ''architectural'', ''structural'', ''mechanical'',
            ''electrical'', ''plumbing'', ''landscape'', ''civil'', ''fire_safety'']"
proof (intro conjI allI impI)
  fix i assume i: "i < length patterns"
    and m: "re_search py (snd (patterns ! i)) corner \<and> (\<forall>j<i. \<not> re_search py (snd (patterns ! j)) corner)"
  have fp: "first_pattern py patterns corner = Some (fst (patterns ! i))"
    using first_pattern_first[OF i] m by blast
  show c: "classify_page py pg = fst (patterns ! i)"
    using assms fp by (simp add: classify_page_def classify_text_def)
  fix pg' assume "fst (page_texts py pg') = corner"
  then have "classify_page py pg' = fst (patterns ! i)"
    using fp by (cases "page_texts py pg'") (simp add: classify_page_def classify_text_def)
  with c show "classify_page py pg' = classify_page py pg" by simp
next
  fix i assume n: "\<forall>j<length patterns. \<not> re_search py (snd (patterns ! j)) corner"
    and i: "i < length patterns"
    and m: "re_search py (snd (patterns ! i)) full \<and> (\<forall>j<i. \<not> re_search py (snd (patterns ! j)) full)"
  have "first_pattern py patterns corner = None"
    using n by (simp add: first_pattern_none)
  moreover have "first_pattern py patterns full = Some (fst (patterns ! i))"
    using first_pattern_first[OF i] m by blast
  ultimately show "classify_page py pg = fst (patterns ! i)"
    using assms by (simp add: classify_page_def classify_text_def)
next
  show "map fst patterns = [''cover_title'', ''architectural'', ''structural'', ''mechanical'',
            ''electrical'', ''plumbing'', ''landscape'', ''civil'', ''fire_safety'']"
    by (simp add: patterns_def)
qed


theorem classify_page_title_block_first_witness:
  "page_texts latin1 \<lparr>get_text_clip = Inr (Some (cps ''a-101'')),
                      get_text_full = Inr (Some (cps ''s-2''))\<rparr>
     = (cps ''A-101'', cps ''S-2'')
   \<and> re_search latin1 (snd (patterns ! 1)) (cps ''A-101'')
   \<and> \<not> re_search latin1 (snd (patterns ! 0)) (cps ''A-101'')
   \<and> classify_page latin1 \<lparr>get_text_clip = Inr (Some (cps ''a-101'')),
                           get_text_full = Inr (Some (cps ''s-2''))\<rparr>
     = ''architectural''
   \<and> page_texts latin1 \<lparr>get_text_clip = Inr None, get_text_full = Inr (Some (cps ''see s2, a3''))\<rparr>
     = ([], cps ''SEE S2, A3'')
   \<and> first_pattern latin1 patterns [] = None
   \<and> re_search latin1 (snd (patterns ! 2)) (cps ''SEE S2, A3'')
   \<and> \<not> re_search latin1 (snd (patterns ! 0)) (cps ''SEE S2, A3'')
   \<and> re_search latin1 (snd (patterns ! 1)) (cps ''SEE S2, A3'')
   \<and> classify_page latin1 \<lparr>get_text_clip = Inr None, get_text_full = Inr (Some (cps ''see s2, a3''))\<rparr>
     = ''architectural''"
proof -
  let ?p = "\<lparr>get_text_clip = Inr (Some (cps ''a-101'')),
             get_text_full = Inr (Some (cps ''s-2''))\<rparr>"
  let ?q = "\<lparr>get_text_clip = Inr None, get_text_full = Inr (Some (cps ''see s2, a3''))\<rparr>"
  have len: "1 < length patterns" by (simp add: patterns_def)
  have lab: "fst (patterns ! 1) = ''architectural''" by (simp add: patterns_def)
  have h1: "page_texts latin1 ?p = (cps ''A-101'', cps ''S-2'')" by code_simp
  have m1: "re_search latin1 (snd (patterns ! 1)) (cps ''A-101'')" by code_simp
  have m0: "\<not> re_search latin1 (snd (patterns ! 0)) (cps ''A-101'')" by code_simp
  have lt: "\<forall>j<1. \<not> re_search latin1 (snd (patterns ! j)) (cps ''A-101'')" using m0 by simp
  have c1: "classify_page latin1 ?p = ''architectural''"
    using classify_page_title_block_first[OF h1] len m1 lt lab by metis
  have h2: "page_texts latin1 ?q = ([], cps ''SEE S2, A3'')" by code_simp
  have n: "first_pattern latin1 patterns [] = None" by code_simp
  then have n': "\<forall>j<length patterns. \<not> re_search latin1 (snd (patterns ! j)) []"
    by (simp add: first_pattern_none)
  have f2: "re_search latin1 (snd (patterns ! 2)) (cps ''SEE S2, A3'')" by code_simp
  have f1: "re_search latin1 (snd (patterns ! 1)) (cps ''SEE S2, A3'')" by code_simp
  have f0: "\<not> re_search latin1 (snd (patterns ! 0)) (cps ''SEE S2, A3'')" by code_simp
  have ft: "\<forall>j<1. \<not> re_search latin1 (snd (patterns ! j)) (cps ''SEE S2, A3'')"
    using f0 by simp
  have c2: "classify_page latin1 ?q = ''architectural''"
    using classify_page_title_block_first[OF h2] len n' f1 ft lab by metis
  show ?thesis using h1 m1 m0 c1 h2 n f2 f1 f0 c2 by blast
qed

text \<open>
  Claim C7. When no sheet-number pattern matches the title-block text or the full-page
  text, \<open>classify_page\<close> returns the first discipline category, in the order fire_safety,
  mechanical, electrical, plumbing, civil, architectural, structural, landscape, one of
  whose keywords occurs in the full-page text; when none does, the first of cover_title,
  schedules, details with a keyword in the full-page text; and \<open>other\<close> when there is no
  keyword at all.
\<close>

theorem classify_page_keyword_cascade:
  assumes "page_texts py pg = (corner, full)"
    and "\<forall>j<length patterns. \<not> re_search py (snd (patterns ! j)) corner
                              \<and> \<not> re_search py (snd (patterns ! j)) full"
  shows "(\<forall>i<length discipline_keywords.
            (\<exists>w \<in> set (snd (discipline_keywords ! i)). str_in (cps w) full)
            \<and> (\<forall>j<i. \<not> (\<exists>w \<in> set (snd (discipline_keywords ! j)). str_in (cps w) full))
            \<longrightarrow> classify_page py pg = fst (discipline_keywords ! i))
       \<and> ((\<forall>j<length discipline_keywords.
              \<not> (\<exists>w \<in> set (snd (discipline_keywords ! j)). str_in (cps w) full)) \<longrightarrow>
            (\<forall>i<length general.
              (\<exists>w \<in> set (snd (general ! i)). str_in (cps w) full)
              \<and> (\<forall>j<i. \<not> (\<exists>w \<in> set (snd (general ! j)). str_in (cps w) full))
              \<longrightarrow> classify_page py pg = fst (general ! i))
            \<and> ((\<forall>j<length general. \<not> (\<exists>w \<in> set (snd (general ! j)). str_in (cps w) full))
              \<longrightarrow> classify_page py pg = ''other''))
       \<and> map fst discipline_keywords = [''fire_safety'', ''mechanical'', ''electrical'',
            ''plumbing'', ''civil'', ''architectural'', ''structural'', ''landscape'']
       \<and> map fst general = [''cover_title'', ''schedules'', ''details'']"
proof -
  have pc: "first_pattern py patterns corner = None" and pf: "first_pattern py patterns full = None"
    using assms(2) by (simp_all add: first_pattern_none)
  have cp: "classify_page py pg =
      (case first_keyword discipline_keywords full of Some k \<Rightarrow> k
       | None \<Rightarrow> (case first_keyword general full of Some k \<Rightarrow> k | None \<Rightarrow> ''other''))"
    using assms(1) pc pf by (simp add: classify_page_def classify_text_def)
  show ?thesis
  proof (intro conjI allI impI)
    fix i assume i: "i < length discipline_keywords"
      and m: "(\<exists>w \<in> set (snd (discipline_keywords ! i)). str_in (cps w) full)
            \<and> (\<forall>j<i. \<not> (\<exists>w \<in> set (snd (discipline_keywords ! j)). str_in (cps w) full))"
    have "first_keyword discipline_keywords full = Some (fst (discipline_keywords ! i))"
      using first_keyword_first[OF i] m by blast
    then show "classify_page py pg = fst (discipline_keywords ! i)" using cp by simp
  next
    fix i assume n: "\<forall>j<length discipline_keywords.
              \<not> (\<exists>w \<in> set (snd (discipline_keywords ! j)). str_in (cps w) full)"
      and i: "i < length general"
      and m: "(\<exists>w \<in> set (snd (general ! i)). str_in (cps w) full)
              \<and> (\<forall>j<i. \<not> (\<exists>w \<in> set (snd (general ! j)). str_in (cps w) full))"
    have "first_keyword discipline_keywords full = None"
      using n by (simp add: first_keyword_none)
    moreover have "first_keyword general full = Some (fst (general ! i))"
      using first_keyword_first[OF i] m by blast
    ultimately show "classify_page py pg = fst (general ! i)" using cp by simp
  next
    assume n: "\<forall>j<length discipline_keywords.
              \<not> (\<exists>w \<in> set (snd (discipline_keywords ! j)). str_in (cps w) full)"
      and g: "\<forall>j<length general. \<not> (\<exists>w \<in> set (snd (general ! j)). str_in (cps w) full)"
    have "first_keyword discipline_keywords full = None"
      using n by (simp add: first_keyword_none)
    moreover have "first_keyword general full = None"
      using g by (simp add: first_keyword_none)
    ultimately show "classify_page py pg = ''other''" using cp by simp
  next
    show "map fst discipline_keywords = [''fire_safety'', ''mechanical'', ''electrical'',
            ''plumbing'', ''civil'', ''architectural'', ''structural'', ''landscape'']"
      by (simp add: discipline_keywords_def)
  next
    show "map fst general = [''cover_title'', ''schedules'', ''details'']"
      by (simp add: general_def)
  qed
qed

theorem classify_page_keyword_cascade_witness:
  "page_texts latin1 \<lparr>get_text_clip = Inr (Some []),
                      get_text_full = Inr (Some (cps ''Hvac panel''))\<rparr>
     = ([], cps ''HVAC PANEL'')
   \<and> first_pattern latin1 patterns [] = None
   \<and> first_pattern latin1 patterns (cps ''HVAC PANEL'') = None
   \<and> str_in (cps ''HVAC'') (cps ''HVAC PANEL'')
   \<and> str_in (cps ''PANEL'') (cps ''HVAC PANEL'')
   \<and> first_keyword [discipline_keywords ! 0] (cps ''HVAC PANEL'') = None
   \<and> classify_page latin1 \<lparr>get_text_clip = Inr (Some []),
                           get_text_full = Inr (Some (cps ''Hvac panel''))\<rparr>
     = ''mechanical''
   \<and> page_texts latin1 \<lparr>get_text_clip = Inl (OtherError ''no text''),
                        get_text_full = Inr (Some (cps ''Schedule''))\<rparr>
     = ([], [])
   \<and> first_keyword discipline_keywords [] = None
   \<and> first_keyword general [] = None
   \<and> classify_page latin1 \<lparr>get_text_clip = Inl (OtherError ''no text''),
                           get_text_full = Inr (Some (cps ''Schedule''))\<rparr>
     = ''other''"
proof -
  let ?p = "\<lparr>get_text_clip = Inr (Some []),
             get_text_full = Inr (Some (cps ''Hvac panel''))\<rparr>"
  let ?q = "\<lparr>get_text_clip = Inl (OtherError ''no text''),
             get_text_full = Inr (Some (cps ''Schedule''))\<rparr>"
  let ?t = "cps ''HVAC PANEL''"
  have len: "1 < length discipline_keywords" by (simp add: discipline_keywords_def)
  have lab: "fst (discipline_keywords ! 1) = ''mechanical''" by (simp add: discipline_keywords_def)
  have h1: "page_texts latin1 ?p = ([], ?t)" by code_simp
  have pc: "first_pattern latin1 patterns [] = None" by code_simp
  have pf: "first_pattern latin1 patterns ?t = None" by code_simp
  have np: "\<forall>j<length patterns. \<not> re_search latin1 (snd (patterns ! j)) []
                              \<and> \<not> re_search latin1 (snd (patterns ! j)) ?t"
    using pc pf by (simp add: first_pattern_none)
  have s1: "str_in (cps ''HVAC'') ?t" by code_simp
  have s2: "str_in (cps ''PANEL'') ?t" by code_simp
  have k0: "first_keyword [discipline_keywords ! 0] ?t = None" by code_simp
  then have k0': "\<forall>j<1. \<not> (\<exists>w \<in> set (snd (discipline_keywords ! j)). str_in (cps w) ?t)"
    by (simp add: first_keyword_none)
  have k1: "\<exists>w \<in> set (snd (discipline_keywords ! 1)). str_in (cps w) ?t"
    using s1 by (simp add: discipline_keywords_def)
  have c1: "classify_page latin1 ?p = ''mechanical''"
    using classify_page_keyword_cascade[OF h1 np] len k1 k0' lab by metis
  have h2: "page_texts latin1 ?q = ([], [])" by code_simp
  have np2: "\<forall>j<length patterns. \<not> re_search latin1 (snd (patterns ! j)) []
                              \<and> \<not> re_search latin1 (snd (patterns ! j)) []"
    using pc by (simp add: first_pattern_none)
  have d: "first_keyword discipline_keywords [] = None" by code_simp
  have g: "first_keyword general [] = None" by code_simp
  have c2: "classify_page latin1 ?q = ''other''"
    using classify_page_keyword_cascade[OF h2 np2] d g by (simp add: first_keyword_none)
  show ?thesis using h1 pc pf s1 s2 k0 c1 h2 d g c2 by blast
qed

text \<open>
  Three texts outside ASCII, under the tables of CPython 3.11. The letter U+00D8 is a word
  character, so there is no word boundary before the \<open>A\<close> of the first text; \<open>upper\<close> turns the
  sharp s of the other two into \<open>SS\<close>, which removes the word boundary before \<open>E 1\<close> in the
  second and makes the keyword \<open>ASSEMBLY\<close> appear in the third.
\<close>

lemma classify_page_latin1:
  "classify_page latin1 \<lparr>get_text_clip = Inr (Some (216 # cps ''A1'')), get_text_full = Inr None\<rparr>
     = ''other''"
  "classify_page latin1 \<lparr>get_text_clip = Inr (Some (cps ''Stra'' @ 223 # cps ''e 12'')),
                         get_text_full = Inr None\<rparr>
     = ''other''"
  "classify_page latin1 \<lparr>get_text_clip = Inr None,
                         get_text_full = Inr (Some (cps ''a'' @ 223 # cps ''embly''))\<rparr>
     = ''details''"
  by code_simp+

section \<open>Properties of the floating-point ramp\<close>

lemma half_even_bounds: "\<lfloor>y\<rfloor> \<le> half_even y" "half_even y \<le> \<lfloor>y\<rfloor> + 1"
  by (simp_all add: half_even_def Let_def)

lemma half_even_int: "half_even (of_int n) = n"
  by (simp add: half_even_def Let_def)

lemma half_even_mono:
  assumes "y \<le> z" shows "half_even y \<le> half_even z"
proof (cases "\<lfloor>y\<rfloor> = \<lfloor>z\<rfloor>")
  case True
  have "y - of_int \<lfloor>y\<rfloor> \<le> z - of_int \<lfloor>y\<rfloor>" using assms by simp
  then show ?thesis unfolding half_even_def Let_def True[symmetric] by auto
next
  case False
  then have "\<lfloor>y\<rfloor> < \<lfloor>z\<rfloor>" using floor_mono[OF assms] by simp
  then have "half_even y \<le> \<lfloor>z\<rfloor>" using half_even_bounds(2)[of y] by simp
  then show ?thesis using half_even_bounds(1)[of z] by simp
qed

lemma half_even_le: "y \<le> of_int n \<Longrightarrow> half_even y \<le> n"
  using half_even_mono[of y "of_int n"] by (simp add: half_even_int)

lemma half_even_ge: "of_int n \<le> y \<Longrightarrow> n \<le> half_even y"
  using half_even_mono[of "of_int n" y] by (simp add: half_even_int)

lemma ilog2_bounds:
  assumes "0 < x"
  shows "2 powi ilog2 x \<le> x" and "x < 2 powi (ilog2 x + 1)"
proof -
  show "2 powi ilog2 x \<le> x"
  proof (cases "1 \<le> x")
    case True
    let ?m = "\<lfloor>x\<rfloor>"
    have m: "0 < ?m" using True by simp
    have b: "1 \<le> bitlen ?m" using m by (auto simp: bitlen_alt_def)
    have "(2::int) ^ nat (bitlen ?m - 1) \<le> ?m" using bitlen_bounds[OF m] by simp
    then have "(of_int ((2::int) ^ nat (bitlen ?m - 1)) :: rat) \<le> x"
      by (simp only: le_floor_iff)
    then have "(2::rat) ^ nat (bitlen ?m - 1) \<le> x" by simp
    moreover have "(2::rat) powi ilog2 x = 2 ^ nat (bitlen ?m - 1)"
      using True b by (simp add: ilog2_def power_int_def)
    ultimately show ?thesis by simp
  next
    case False
    let ?c = "\<lceil>1 / x\<rceil>"
    let ?m = "?c - 1"
    have "1 < 1 / x" using False assms by (simp add: field_simps)
    then have m: "0 < ?m" by (simp add: less_ceiling_iff)
    have "?m < 2 ^ nat (bitlen ?m)" using bitlen_bounds[OF m] by simp
    then have "?c \<le> 2 ^ nat (bitlen ?m)" by simp
    then have "1 / x \<le> of_int (2 ^ nat (bitlen ?m))" by (simp only: ceiling_le_iff)
    then have "1 / x \<le> 2 ^ nat (bitlen ?m)" by simp
    then have "1 / 2 ^ nat (bitlen ?m) \<le> x" using assms by (simp add: field_simps)
    moreover have "(2::rat) powi ilog2 x = 1 / 2 ^ nat (bitlen ?m)"
      using False bitlen_nonneg[of ?m]
      by (simp add: ilog2_def power_int_def field_simps)
    ultimately show ?thesis by simp
  qed
  show "x < 2 powi (ilog2 x + 1)"
  proof (cases "1 \<le> x")
    case True
    let ?m = "\<lfloor>x\<rfloor>"
    have m: "0 < ?m" using True by simp
    have b: "1 \<le> bitlen ?m" using m by (auto simp: bitlen_alt_def)
    have "?m < 2 ^ nat (bitlen ?m)" using bitlen_bounds[OF m] by simp
    then have "?m + 1 \<le> 2 ^ nat (bitlen ?m)" by simp
    then have "(of_int (?m + 1) :: rat) \<le> of_int (2 ^ nat (bitlen ?m))" by (simp only: of_int_le_iff)
    then have "x < 2 ^ nat (bitlen ?m)" using floor_correct[of x] by simp
    moreover have "(2::rat) powi (ilog2 x + 1) = 2 ^ nat (bitlen ?m)"
      using True b by (simp add: ilog2_def power_int_def)
    ultimately show ?thesis by simp
  next
    case False
    let ?c = "\<lceil>1 / x\<rceil>"
    let ?m = "?c - 1"
    have "1 < 1 / x" using False assms by (simp add: field_simps)
    then have m: "0 < ?m" by (simp add: less_ceiling_iff)
    have b: "1 \<le> bitlen ?m" using m by (auto simp: bitlen_alt_def)
    have "(2::int) ^ nat (bitlen ?m - 1) \<le> ?m" using bitlen_bounds[OF m] by simp
    then have "(of_int ((2::int) ^ nat (bitlen ?m - 1)) :: rat) \<le> of_int ?m"
      by (simp only: of_int_le_iff)
    moreover have "of_int ?m < 1 / x" using ceiling_correct[of "1 / x"] by simp
    ultimately have "2 ^ nat (bitlen ?m - 1) < 1 / x" by simp
    then have "x < 1 / 2 ^ nat (bitlen ?m - 1)" using assms by (simp add: field_simps)
    moreover have "(2::rat) powi (ilog2 x + 1) = 1 / 2 ^ nat (bitlen ?m - 1)"
    proof -
      have "ilog2 x + 1 = - (bitlen ?m - 1)" using False by (simp add: ilog2_def)
      then have "(2::rat) powi (ilog2 x + 1) = 2 powi (- (bitlen ?m - 1))" by (rule arg_cong)
      also have "\<dots> = inverse (2 powi (bitlen ?m - 1))" by (rule power_int_minus)
      also have "(2::rat) powi (bitlen ?m - 1) = 2 ^ nat (bitlen ?m - 1)"
        using b by (simp add: power_int_def)
      finally show ?thesis by (simp add: field_simps)
    qed
    ultimately show ?thesis by simp
  qed
qed

lemma ilog2_mono:
  assumes "0 < x" "x \<le> y" shows "ilog2 x \<le> ilog2 y"
proof -
  have "(2::rat) powi ilog2 x < 2 powi (ilog2 y + 1)"
    using ilog2_bounds(1)[OF assms(1)] ilog2_bounds(2)[of y] assms by simp
  have "ilog2 x < ilog2 y + 1"
  proof (rule ccontr)
    assume "\<not> ilog2 x < ilog2 y + 1"
    then have "ilog2 y + 1 \<le> ilog2 x" by simp
    then have "(2::rat) powi (ilog2 y + 1) \<le> 2 powi ilog2 x"
      by (intro power_int_increasing) simp_all
    with \<open>(2::rat) powi ilog2 x < 2 powi (ilog2 y + 1)\<close> show False by simp
  qed
  then show ?thesis by simp
qed

lemma double_exp_mono: "0 < x \<Longrightarrow> x \<le> y \<Longrightarrow> double_exp x \<le> double_exp y"
  using ilog2_mono[of x y] by (simp add: double_exp_def)

lemma round_double_pos:
  "0 < x \<Longrightarrow> round_double x = of_int (half_even (x / 2 powi double_exp x)) * 2 powi double_exp x"
  by (simp add: round_double_def)

lemma round_double_nonneg:
  assumes "0 \<le> x" shows "0 \<le> round_double x"
proof (cases "x = 0")
  case True
  then show ?thesis by (simp add: round_double_def)
next
  case False
  then have p: "0 < x" using assms by simp
  have "0 \<le> x / 2 powi double_exp x" using p by simp
  then have "0 \<le> half_even (x / 2 powi double_exp x)"
    using half_even_ge[of 0] by simp
  then show ?thesis unfolding round_double_pos[OF p] by simp
qed

lemma round_double_mono:
  assumes "0 \<le> x" "x \<le> y" shows "round_double x \<le> round_double y"
proof (cases "x = 0")
  case True
  then show ?thesis using round_double_nonneg[of y] assms by (simp add: round_double_def)
next
  case False
  then have px: "0 < x" using assms by simp
  then have py: "0 < y" using assms by simp
  let ?e = "double_exp x" and ?f = "double_exp y"
  have ef: "?e \<le> ?f" by (rule double_exp_mono[OF px assms(2)])
  show ?thesis
  proof (cases "?e = ?f")
    case True
    have "x / 2 powi ?e \<le> y / 2 powi ?e" using assms(2) by (simp add: divide_right_mono)
    then have "half_even (x / 2 powi ?e) \<le> half_even (y / 2 powi ?e)" by (rule half_even_mono)
    then show ?thesis unfolding round_double_pos[OF px] round_double_pos[OF py] True[symmetric]
      by (simp add: mult_right_mono)
  next
    case False
    then have lt: "?e < ?f" using ef by simp
    have "- 1074 \<le> ?e" by (simp add: double_exp_def)
    then have "- 1074 < ?f" using lt by simp
    then have f: "?f = ilog2 y - 52" unfolding double_exp_def by linarith
    have e: "ilog2 x - 52 \<le> ?e" by (simp add: double_exp_def)
    have "0 \<le> ?f + 52 - ?e" using lt by simp
    then obtain n :: nat where n: "?f + 52 - ?e = int n" using zero_le_imp_eq_int by blast
    have B: "(2::rat) powi (?f + 52) = of_int (2 ^ n) * 2 powi ?e"
    proof -
      have "?f + 52 = int n + ?e" using n by linarith
      then have "(2::rat) powi (?f + 52) = 2 powi (int n + ?e)" by (rule arg_cong)
      also have "\<dots> = 2 powi (int n) * 2 powi ?e" by (simp add: power_int_add)
      finally show ?thesis by simp
    qed
    have B2: "(2::rat) powi (?f + 52) = of_int (2 ^ 52) * 2 powi ?f"
    proof -
      have "(2::rat) powi (?f + 52) = 2 powi (52 + ?f)" by (simp add: add.commute)
      also have "\<dots> = 2 powi 52 * 2 powi ?f" by (rule power_int_add) simp
      finally show ?thesis by simp
    qed
    have "x < 2 powi (ilog2 x + 1)" by (rule ilog2_bounds(2)[OF px])
    also have "\<dots> \<le> 2 powi (?f + 52)"
      using e lt by (intro power_int_increasing) simp_all
    finally have xB: "x \<le> of_int (2 ^ n) * 2 powi ?e" unfolding B by simp
    have "x / 2 powi ?e \<le> of_int (2 ^ n)"
      using xB by (simp add: field_simps)
    then have "half_even (x / 2 powi ?e) \<le> 2 ^ n" by (rule half_even_le)
    then have "(of_int (half_even (x / 2 powi ?e)) :: rat) \<le> of_int (2 ^ n)"
      by (simp only: of_int_le_iff)
    then have rx: "round_double x \<le> 2 powi (?f + 52)"
      unfolding round_double_pos[OF px] B by (simp add: mult_right_mono)
    have "(2::rat) powi (?f + 52) \<le> y"
      using ilog2_bounds(1)[OF py] f by simp
    then have "of_int (2 ^ 52) \<le> y / 2 powi ?f"
      unfolding B2 by (simp add: field_simps)
    then have "2 ^ 52 \<le> half_even (y / 2 powi ?f)" by (rule half_even_ge)
    then have "(of_int (2 ^ 52) :: rat) \<le> of_int (half_even (y / 2 powi ?f))"
      by (simp only: of_int_le_iff)
    then have ry: "2 powi (?f + 52) \<le> round_double y"
      unfolding round_double_pos[OF py] B2 by (simp add: mult_right_mono)
    show ?thesis using rx ry by simp
  qed
qed

lemma ilog2_1: "ilog2 1 = 0"
  by (simp add: ilog2_def compute_bitlen)

lemma round_double_1: "round_double 1 = 1"
  by (simp add: round_double_def double_exp_def ilog2_1 half_even_def Let_def power_int_minus field_simps)


lemma round_double_60: "round_double 60 = 60"
  by code_simp

lemma float_to_int_mono: "x \<le> y \<Longrightarrow> float_to_int x \<le> float_to_int y"
  unfolding float_to_int_def
  by (auto intro: floor_mono ceiling_mono order_trans[OF ceiling_mono[of x 0]] simp: not_le)

lemma ramp60_props:
  assumes "1 \<le> i" "i \<le> j" "j \<le> t"
  shows "0 \<le> ramp60 i t" and "ramp60 i t \<le> ramp60 j t" and "ramp60 j t \<le> 60"
proof -
  have t: "max 1 t = t" using assms by simp
  let ?a = "\<lambda>k::nat. round_double (of_nat k / of_nat t)"
  have q: "(0::rat) \<le> of_nat i / of_nat t" "(of_nat i :: rat) / of_nat t \<le> of_nat j / of_nat t"
    "(of_nat j :: rat) / of_nat t \<le> 1"
    using assms by (simp_all add: divide_right_mono field_simps)
  have a0: "0 \<le> ?a i" using q(1) by (rule round_double_nonneg)
  have a1: "?a i \<le> ?a j" using q(1,2) by (rule round_double_mono)
  have "0 \<le> (of_nat j :: rat) / of_nat t" using q(1,2) by simp
  then have "?a j \<le> round_double 1" using q(3) by (rule round_double_mono)
  then have a2: "?a j \<le> 1" by (simp only: round_double_1)
  have b0: "0 \<le> round_double (?a i * 60)" using a0 by (intro round_double_nonneg) simp
  have b1: "round_double (?a i * 60) \<le> round_double (?a j * 60)"
    using a0 a1 by (intro round_double_mono) simp_all
  have "round_double (?a j * 60) \<le> round_double 60"
    using a0 a1 a2 by (intro round_double_mono) simp_all
  then have b2: "round_double (?a j * 60) \<le> 60" by (simp only: round_double_60)
  show "0 \<le> ramp60 i t"
    unfolding ramp60_def t using b0 by (simp add: float_to_int_def)
  show "ramp60 i t \<le> ramp60 j t"
    unfolding ramp60_def t using b1 by (rule float_to_int_mono)
  have "float_to_int (round_double (?a j * 60)) \<le> float_to_int 60"
    using b2 by (rule float_to_int_mono)
  then show "ramp60 j t \<le> 60"
    unfolding ramp60_def t by (simp add: float_to_int_def)
qed

lemma ramp60_values:
  "ramp60 1 2 = 30" "ramp60 2 2 = 60"
  "ramp60 (Suc 0) (Suc (Suc 0)) = 30" "ramp60 (Suc (Suc 0)) (Suc (Suc 0)) = 60"
  by code_simp+

lemma ramp60_ok:
  "\<forall>i j t. 1 \<le> i \<and> i \<le> j \<and> j \<le> t \<longrightarrow>
     0 \<le> ramp60 i t \<and> ramp60 i t \<le> ramp60 j t \<and> ramp60 j t \<le> 60"
  using ramp60_props by blast

section \<open>Properties of the pipeline\<close>

lemma cur_put [simp]: "cur (put f st) = f (cur st)"
  by (simp add: put_def)

lemma hist_put [simp]: "hist (put f st) = hist st @ [f (cur st)]"
  by (simp add: put_def)

lemma logs_put [simp]: "logs (put f st) = logs st"
  by (simp add: put_def)

lemma cur_log_msg [simp]: "cur (log_msg l m st) = cur st"
  by (simp add: log_msg_def)

lemma hist_log_msg [simp]: "hist (log_msg l m st) = hist st"
  by (simp add: log_msg_def)

lemma logs_log_msg [simp]: "logs (log_msg l m st) = logs st @ [(l, m)]"
  by (simp add: log_msg_def)

subsection \<open>Page selection\<close>

lemma select_keep_explicit:
  "ps \<noteq> [] \<Longrightarrow>
   select_keep (Some ps) n =
     (let keep = filter (\<lambda>p. 0 \<le> p \<and> p < int n) (map (\<lambda>p. p - 1) ps)
      in if keep = [] then Inl (ValueError ''No valid pages selected.'')
         else Inr (keep, ''Extracting '' @ str_nat (length keep) @ '' selected pages...''))"
  by (cases ps) (simp_all add: select_keep_def)

lemma select_keep_all:
  "select_keep None n = Inr (map int [0..<n], ''Processing all pages...'')"
  "select_keep (Some []) n = Inr (map int [0..<n], ''Processing all pages...'')"
  by (simp_all add: select_keep_def)

lemma process_job_select_error:
  assumes "open_src E = Inr n" and "select_keep xp n = Inl e"
  shows "cur (process_job E xp ex st) =
           fail e (cur (set_progress 5 (set_status ''Initializing...'' st)))"
  using assms by (simp add: process_job_def run_pipeline_def Let_def)

subsection \<open>Page copy\<close>

lemma copy_pages_record [simp]:
  "cur (snd (copy_pages E keep st)) = cur st"
  "hist (snd (copy_pages E keep st)) = hist st"
  by (induction keep arbitrary: st)
     (auto simp: Let_def split: option.splits exn.splits)

lemma copy_pages_fails_iff:
  "(fst (copy_pages E keep st) \<noteq> None) =
   (\<exists>p \<in> set keep.
      (\<exists>m. insert_pdf E p True = Some (OtherError m))
      \<or> ((\<exists>m. insert_pdf E p True = Some (ValueError m)) \<and> insert_pdf E p False \<noteq> None))"
  by (induction keep arbitrary: st)
     (auto simp: Let_def split: option.splits exn.splits)

lemma copy_pages_logs:
  "fst (copy_pages E keep st) = None \<Longrightarrow>
   logs (snd (copy_pages E keep st)) =
     logs st @ concat (map (\<lambda>p. case insert_pdf E p True of
                                   None \<Rightarrow> []
                                 | Some e \<Rightarrow> [(WARNING, link_warning p e)]) keep)"
  by (induction keep arbitrary: st)
     (auto simp: Let_def split: option.splits exn.splits)

lemma work_stage_fst:
  "fst (work_stage E keep ex st) =
     (case fst (copy_pages E keep st) of
        Some e \<Rightarrow> Inl e
      | None \<Rightarrow> (case collect_xrefs E of Inl e \<Rightarrow> Inl e | Inr xs \<Rightarrow> save_work E))"
  by (simp add: work_stage_def Let_def split: prod.splits option.splits sum.splits)

lemma process_job_copy_error:
  assumes "open_src E = Inr n" and "select_keep xp n = Inr (keep, l)"
    and "fst (copy_pages E keep st') \<noteq> None"
  shows "status (cur (process_job E xp ex st)) = ''error''"
proof -
  let ?st2 = "set_progress 10 (set_status l (set_progress 5 (set_status ''Initializing...'' st)))"
  have "fst (copy_pages E keep ?st2) \<noteq> None"
    using assms(3) by (simp only: copy_pages_fails_iff)
  then obtain e where "fst (work_stage E keep ex ?st2) = Inl e"
    by (auto simp: work_stage_fst)
  then obtain st3 where "work_stage E keep ex ?st2 = (Inl e, st3)"
    by (cases "work_stage E keep ex ?st2") simp
  then show ?thesis
    using assms(1,2) by (simp add: process_job_def run_pipeline_def Let_def fail_def)
qed

subsection \<open>The record stays a running one until the last write\<close>

lemma running_init: "running_job j \<Longrightarrow> running_state (init_state j)"
  by (simp add: running_state_def init_state_def)

lemma running_new_job: "running_job (new_job now path)"
  by (simp add: running_job_def new_job_def)

lemma running_put:
  "running_state st \<Longrightarrow> running_job (f (cur st)) \<Longrightarrow> running_state (put f st)"
  by (simp add: running_state_def)

lemma running_cur: "running_state st \<Longrightarrow> running_job (cur st)"
  unfolding running_state_def by (metis last_in_set)

lemma running_set_status:
  assumes "running_state st" and "s \<noteq> ''done''" and "s \<noteq> ''error''"
  shows "running_state (set_status s st)"
  unfolding set_status_def
proof (rule running_put[OF assms(1)])
  show "running_job ((cur st)\<lparr>status := s\<rparr>)"
    using running_cur[OF assms(1)] assms(2,3) by (simp add: running_job_def)
qed

lemma running_set_progress:
  assumes "running_state st"
  shows "running_state (set_progress p st)"
  unfolding set_progress_def
proof (rule running_put[OF assms])
  show "running_job ((cur st)\<lparr>progress := p\<rparr>)"
    using running_cur[OF assms] by (simp add: running_job_def)
qed

lemma running_log_msg [simp]: "running_state (log_msg l m st) = running_state st"
  by (simp add: running_state_def)

lemma running_copy_pages [simp]:
  "running_state (snd (copy_pages E keep st)) = running_state st"
  by (simp add: running_state_def)

lemma running_recompress_images:
  "running_state st \<Longrightarrow> running_state (recompress_images E tot idx xs st)"
  by (induction xs arbitrary: idx st)
     (auto simp: running_set_progress split: image_outcome.splits)

lemma work_stage_snd:
  "snd (work_stage E keep ex st) =
     (case fst (copy_pages E keep st) of
        Some e \<Rightarrow> snd (copy_pages E keep st)
      | None \<Rightarrow>
          (case collect_xrefs E of
             Inl e \<Rightarrow>
               set_progress 20 (set_status ''Recompressing images...''
                 (if ex then set_progress 15
                      (set_status ''Cleaning annotations & attachments...'' (snd (copy_pages E keep st)))
                  else snd (copy_pages E keep st)))
           | Inr xs \<Rightarrow>
               set_progress 82 (set_status ''Saving (PyMuPDF)...''
                 (recompress_images E (length xs) 1 xs
                   (set_progress 20 (set_status ''Recompressing images...''
                     (if ex then set_progress 15
                          (set_status ''Cleaning annotations & attachments...'' (snd (copy_pages E keep st)))
                      else snd (copy_pages E keep st))))))))"
  by (simp add: work_stage_def Let_def split: prod.splits option.splits sum.splits)

lemma running_work_stage:
  assumes "running_state st"
  shows "running_state (snd (work_stage E keep ex st))"
proof -
  let ?st1 = "snd (copy_pages E keep st)"
  let ?st2 = "if ex then set_progress 15
      (set_status ''Cleaning annotations & attachments...'' ?st1) else ?st1"
  let ?st3 = "set_progress 20 (set_status ''Recompressing images...'' ?st2)"
  have s1: "running_state ?st1" using assms by simp
  have s2: "running_state ?st2"
    using s1 by (simp add: running_set_progress running_set_status)
  have s3: "running_state ?st3"
    by (intro running_set_progress running_set_status s2) simp_all
  have s5: "running_state (set_progress 82 (set_status ''Saving (PyMuPDF)...''
              (recompress_images E (length xs) 1 xs ?st3)))" for xs
    by (intro running_set_progress running_set_status running_recompress_images s3) simp_all
  show ?thesis
    unfolding work_stage_snd
    using s1 s3 s5 by (cases ex) (simp_all split: option.splits sum.splits)
qed

lemma status_label_running:
  "select_keep xp n = Inr (keep, l) \<Longrightarrow> l \<noteq> ''done'' \<and> l \<noteq> ''error''"
  by (auto simp: select_keep_def Let_def split: option.splits list.splits if_splits)

text \<open>The shape of a run: running states, then one last write.\<close>

lemma run_pipeline_running:
  assumes "running_state st0"
  shows "case run_pipeline E xp ex st0 of
           (None, st) \<Rightarrow> (\<exists>b st5. st = put (finish b) st5 \<and> running_state st5)
         | (Some e, st) \<Rightarrow> running_state st"
proof -
  define st1 where "st1 = set_progress 5 (set_status ''Initializing...'' st0)"
  have s1: "running_state st1"
    using assms by (simp add: st1_def running_set_progress running_set_status)
  show ?thesis
  proof (cases "open_src E")
    case (Inl e)
    then show ?thesis using s1 by (simp add: run_pipeline_def st1_def[symmetric])
  next
    case (Inr n)
    show ?thesis
    proof (cases "select_keep xp n")
      case (Inl e)
      then show ?thesis using s1 Inr by (simp add: run_pipeline_def st1_def[symmetric])
    next
      case sel: (Inr kl)
      obtain keep l where kl: "kl = (keep, l)" by (cases kl)
      define st2 where "st2 = set_progress 10 (set_status l st1)"
      have s2: "running_state st2"
        using s1 status_label_running[of xp n keep l] sel kl
        by (simp add: st2_def running_set_progress running_set_status)
      obtain r st3 where w: "work_stage E keep ex st2 = (r, st3)"
        by (cases "work_stage E keep ex st2")
      have s3: "running_state st3"
        using running_work_stage[OF s2, of E keep ex] w by simp
      show ?thesis
      proof (cases r)
        case (Inl e)
        then show ?thesis
          using Inr sel kl w s3
          by (simp add: run_pipeline_def st1_def[symmetric] st2_def[symmetric])
      next
        case r: (Inr b)
        define st5 where "st5 = set_progress 95 (set_status ''Optimizing final PDF structure...''
            (set_progress 90 (set_status ''Applying Ghostscript compression...'' st3)))"
        have "running_state st5"
          using s3 by (simp add: st5_def running_set_progress running_set_status)
        then show ?thesis
          using Inr sel kl w r
          by (auto simp: run_pipeline_def Let_def st1_def[symmetric] st2_def[symmetric]
                st5_def[symmetric])
      qed
    qed
  qed
qed

subsection \<open>Progress\<close>

lemma progress_init: "progress_state (progress j) (init_state j)"
  by (simp add: progress_state_def init_state_def)

lemma progress_weaken: "progress_state b st \<Longrightarrow> b \<le> c \<Longrightarrow> progress_state c st"
  by (auto simp: progress_state_def)

lemma progress_put:
  assumes "progress_state b st" and "progress (cur st) \<le> progress (f (cur st))"
    and "progress (f (cur st)) \<le> c"
  shows "progress_state c (put f st)"
proof -
  have "\<forall>j \<in> set (hist st). progress j \<le> progress (f (cur st))"
    using assms(1,2) by (fastforce simp: progress_state_def)
  then show ?thesis
    using assms by (auto simp: progress_state_def sorted_append)
qed

lemma progress_set_status:
  "progress_state b st \<Longrightarrow> progress_state b (set_status s st)"
  unfolding set_status_def
  by (rule progress_put) (auto simp: progress_state_def)

lemma progress_set_progress:
  "progress_state b st \<Longrightarrow> b \<le> p \<Longrightarrow> progress_state p (set_progress p st)"
  unfolding set_progress_def
  by (rule progress_put) (auto simp: progress_state_def)

lemma progress_log_msg [simp]: "progress_state b (log_msg l m st) = progress_state b st"
  by (simp add: progress_state_def)

lemma progress_copy_pages [simp]:
  "progress_state b (snd (copy_pages E keep st)) = progress_state b st"
  by (simp add: progress_state_def)

lemma progress_recompress_images:
  "1 \<le> idx \<Longrightarrow> idx + length xs = tot + 1 \<Longrightarrow> progress_state 80 st
    \<Longrightarrow> \<forall>k. idx \<le> k \<and> k \<le> tot \<longrightarrow> progress (cur st) \<le> 20 + ramp60 k tot
    \<Longrightarrow> progress_state 80 (recompress_images E tot idx xs st)"
proof (induction xs arbitrary: idx st)
  case Nil
  then show ?case by simp
next
  case (Cons x xs)
  have le: "idx \<le> tot" using Cons.prems(2) by simp
  have f: "0 \<le> ramp60 idx tot" "ramp60 idx tot \<le> 60"
    using ramp60_ok Cons.prems(1) le by blast+
  have mono: "\<forall>k. idx + 1 \<le> k \<and> k \<le> tot \<longrightarrow> ramp60 idx tot \<le> ramp60 k tot"
    using ramp60_ok Cons.prems(1)
    by (metis add_leD1 le_refl order_trans)
  have cur_le: "progress (cur st) \<le> 20 + ramp60 idx tot"
    using Cons.prems(4) le by simp
  have step: "progress_state 80 (recompress_images E tot (idx + 1) xs
                (set_progress (20 + ramp60 idx tot) st'))"
    if st': "progress_state 80 st'" "cur st' = cur st" for st'
  proof (rule Cons.IH)
    show "1 \<le> idx + 1" by simp
    show "idx + 1 + length xs = tot + 1" using Cons.prems(2) by simp
    have a: "progress_state (progress (cur st')) st'"
      using st'(1) by (simp add: progress_state_def)
    have b: "progress (cur st') \<le> 20 + ramp60 idx tot"
      using cur_le st'(2) by simp
    have c: "progress_state (20 + ramp60 idx tot) (set_progress (20 + ramp60 idx tot) st')"
      by (rule progress_set_progress[OF a b])
    show "progress_state 80 (set_progress (20 + ramp60 idx tot) st')"
      by (rule progress_weaken[OF c]) (use f(2) in simp)
    show "\<forall>k. idx + 1 \<le> k \<and> k \<le> tot \<longrightarrow>
            progress (cur (set_progress (20 + ramp60 idx tot) st')) \<le> 20 + ramp60 k tot"
      using mono by (simp add: set_progress_def)
  qed
  show ?case
  proof (cases "image_step E x")
    case NoImage
    have "progress_state 80 (recompress_images E tot (idx + 1) xs st)"
      by (rule Cons.IH) (use Cons.prems in auto)
    with NoImage show ?thesis by simp
  next
    case Recompressed
    with step[of st] Cons.prems(3) show ?thesis by simp
  next
    case (ImageError e)
    let ?st' = "log_msg WARNING (''Image xref '' @ str_nat x @ '' recompress skipped: '' @ str_exn e) st"
    have "progress_state 80 ?st'" "cur ?st' = cur st"
      using Cons.prems(3) by simp_all
    from step[OF this] ImageError show ?thesis by simp
  qed
qed

lemma progress_work_stage:
  assumes "progress_state 10 st"
  shows "progress_state 82 (snd (work_stage E keep ex st))"
proof -
  let ?st1 = "snd (copy_pages E keep st)"
  let ?st2 = "if ex then set_progress 15
      (set_status ''Cleaning annotations & attachments...'' ?st1) else ?st1"
  let ?st3 = "set_progress 20 (set_status ''Recompressing images...'' ?st2)"
  have s1: "progress_state 10 ?st1" using assms by simp
  have s1': "progress_state 82 ?st1" by (rule progress_weaken[OF s1]) simp
  have "progress_state 15 (set_progress 15
      (set_status ''Cleaning annotations & attachments...'' ?st1))"
    by (rule progress_set_progress[OF progress_set_status[OF s1]]) simp
  moreover have "progress_state 15 ?st1" by (rule progress_weaken[OF s1]) simp
  ultimately have s2: "progress_state 15 ?st2" by simp
  have s3: "progress_state 20 ?st3"
    by (rule progress_set_progress[OF progress_set_status[OF s2]]) simp
  have s3': "progress_state 82 ?st3" by (rule progress_weaken[OF s3]) simp
  have c3: "progress (cur ?st3) = 20" by (simp add: set_progress_def)
  have s4: "progress_state 80 (recompress_images E (length xs) 1 xs ?st3)" for xs
  proof (rule progress_recompress_images)
    show "(1::nat) \<le> 1" by simp
    show "1 + length xs = length xs + 1" by simp
    show "progress_state 80 ?st3" by (rule progress_weaken[OF s3]) simp
    show "\<forall>k. 1 \<le> k \<and> k \<le> length xs \<longrightarrow> progress (cur ?st3) \<le> 20 + ramp60 k (length xs)"
    proof (intro allI impI)
      fix k assume k: "1 \<le> k \<and> k \<le> length xs"
      then have "0 \<le> ramp60 k (length xs)"
        using ramp60_ok by blast
      then show "progress (cur ?st3) \<le> 20 + ramp60 k (length xs)"
        unfolding c3 by simp
    qed
  qed
  have s5: "progress_state 82 (set_progress 82 (set_status ''Saving (PyMuPDF)...''
              (recompress_images E (length xs) 1 xs ?st3)))" for xs
    by (rule progress_set_progress[OF progress_set_status[OF s4]]) simp
  show ?thesis
    unfolding work_stage_snd
    using s1' s3' s5 by (cases ex) (simp_all split: option.splits sum.splits)
qed

text \<open>The shape of a run: running states with progress up to 95, then one last write.\<close>

lemma run_pipeline_shape:
  assumes "running_state st0"
  shows "case run_pipeline E xp ex st0 of
           (None, st) \<Rightarrow>
             (\<exists>b st5. st = put (finish b) st5 \<and> running_state st5
                \<and> (progress_state 5 st0 \<longrightarrow> progress_state 95 st5))
         | (Some e, st) \<Rightarrow>
             running_state st
             \<and> (progress_state 5 st0 \<longrightarrow> progress_state 95 st)"
proof -
  define st1 where "st1 = set_progress 5 (set_status ''Initializing...'' st0)"
  have s1: "running_state st1"
    using assms by (simp add: st1_def running_set_progress running_set_status)
  have p1: "progress_state 5 st1" if "progress_state 5 st0"
    unfolding st1_def by (rule progress_set_progress[OF progress_set_status[OF that]]) simp
  have p1': "progress_state 95 st1" if "progress_state 5 st0"
    by (rule progress_weaken[OF p1[OF that]]) simp
  show ?thesis
  proof (cases "open_src E")
    case (Inl e)
    then show ?thesis using s1 p1' by (simp add: run_pipeline_def st1_def[symmetric])
  next
    case (Inr n)
    show ?thesis
    proof (cases "select_keep xp n")
      case (Inl e)
      then show ?thesis using s1 p1' Inr by (simp add: run_pipeline_def st1_def[symmetric])
    next
      case sel: (Inr kl)
      obtain keep l where kl: "kl = (keep, l)" by (cases kl)
      define st2 where "st2 = set_progress 10 (set_status l st1)"
      have s2: "running_state st2"
        using s1 status_label_running[of xp n keep l] sel kl
        by (simp add: st2_def running_set_progress running_set_status)
      have p2: "progress_state 10 st2" if "progress_state 5 st0"
        unfolding st2_def
        by (rule progress_set_progress[OF progress_set_status[OF p1[OF that]]]) simp
      obtain r st3 where w: "work_stage E keep ex st2 = (r, st3)"
        by (cases "work_stage E keep ex st2")
      have s3: "running_state st3"
        using running_work_stage[OF s2, of E keep ex] w by simp
      have p3: "progress_state 82 st3" if "progress_state 5 st0"
        using progress_work_stage[OF p2[OF that], of E keep ex] w by simp
      show ?thesis
      proof (cases r)
        case (Inl e)
        have "progress_state 95 st3" if "progress_state 5 st0"
          by (rule progress_weaken[OF p3[OF that]]) simp
        then show ?thesis
          using Inl Inr sel kl w s3
          by (simp add: run_pipeline_def st1_def[symmetric] st2_def[symmetric])
      next
        case r: (Inr b)
        define st4 where "st4 = set_progress 90 (set_status ''Applying Ghostscript compression...'' st3)"
        define st5 where "st5 = set_progress 95 (set_status ''Optimizing final PDF structure...'' st4)"
        have s5: "running_state st5"
          using s3 by (simp add: st4_def st5_def running_set_progress running_set_status)
        have p4: "progress_state 90 st4" if "progress_state 5 st0"
          unfolding st4_def
          by (rule progress_set_progress[OF progress_set_status[OF p3[OF that]]]) simp
        have p5: "progress_state 95 st5" if "progress_state 5 st0"
          unfolding st5_def
          by (rule progress_set_progress[OF progress_set_status[OF p4[OF that]]]) simp
        have "run_pipeline E xp ex st0 =
                (None, put (finish (pikepdf_optimize E (ghostscript_compress E b ex))) st5)"
          using Inr sel kl w r
          by (simp add: run_pipeline_def Let_def st1_def[symmetric] st2_def[symmetric]
                st4_def[symmetric] st5_def[symmetric])
        then show ?thesis using s5 p5 by auto
      qed
    qed
  qed
qed

lemma new_job_states:
  "running_state (init_state (new_job now path))"
  "progress_state 5 (init_state (new_job now path))"
  by (simp_all add: running_state_def running_job_def progress_state_def init_state_def new_job_def)

text \<open>What a finished run looks like, in the two ways it can end.\<close>

lemma process_job_shape:
  "(\<exists>b st5. process_job E xp ex (init_state (new_job now path)) = put (finish b) st5
       \<and> running_state st5 \<and> progress_state 95 st5)
   \<or> (\<exists>e st5. process_job E xp ex (init_state (new_job now path)) = put (fail e) st5
       \<and> running_state st5 \<and> progress_state 95 st5)"
proof -
  let ?st0 = "init_state (new_job now path)"
  obtain r st where rp: "run_pipeline E xp ex ?st0 = (r, st)"
    by (cases "run_pipeline E xp ex ?st0")
  have sh: "case run_pipeline E xp ex ?st0 of
           (None, st) \<Rightarrow>
             (\<exists>b st5. st = put (finish b) st5 \<and> running_state st5
                \<and> (progress_state 5 ?st0 \<longrightarrow> progress_state 95 st5))
         | (Some e, st) \<Rightarrow>
             running_state st
             \<and> (progress_state 5 ?st0 \<longrightarrow> progress_state 95 st)"
    by (rule run_pipeline_shape[OF new_job_states(1)])
  show ?thesis
  proof (cases r)
    case None
    then show ?thesis
      using sh rp new_job_states(2)[of now path] by (auto simp: process_job_def)
  next
    case (Some e)
    let ?st5 = "log_msg ERROR (''Job failed: '' @ str_exn e) st"
    have "process_job E xp ex ?st0 = put (fail e) ?st5"
      using rp Some by (simp add: process_job_def)
    moreover have "running_state ?st5 \<and> progress_state 95 ?st5"
      using sh rp Some new_job_states(2)[of now path] by simp
    ultimately show ?thesis by blast
  qed
qed

subsection \<open>Sample runs\<close>

lemma process_job_cur_in_hist:
  "cur (process_job E xp ex (init_state (new_job now path)))
     \<in> set (hist (process_job E xp ex (init_state (new_job now path))))"
  using process_job_shape[of E xp ex now path] by auto

lemma copy_pages_all_ok:
  "\<forall>p \<in> set keep. insert_pdf E p True = None \<Longrightarrow> copy_pages E keep st = (None, st)"
  by (induction keep arbitrary: st) simp_all

lemmas run_defs = process_job_def run_pipeline_def work_stage_def select_keep_def
  ghostscript_compress_def find_ghostscript_exe_def pikepdf_optimize_def
  set_status_def set_progress_def init_state_def queued_job_def new_job_def finish_def fail_def

lemma ok_env_run:
  "map progress (hist (process_job ok_env None False (init_state queued_job)))
     = [0, 0, 5, 5, 10, 10, 20, 50, 80, 80, 82, 82, 90, 90, 95, 100]"
  "status (cur (process_job ok_env None False (init_state queued_job))) = ''done''"
  "output_buffer (cur (process_job ok_env None False (init_state queued_job))) = Some [37, 80, 68, 70]"
  by (simp_all add: run_defs ok_env_def bad_open_env_def copy_pages_all_ok ramp60_values)

lemma failing_open_run:
  "map progress (hist (process_job bad_open_env
      None False (init_state queued_job))) = [0, 0, 5, 5]"
  "status (cur (process_job bad_open_env
      None False (init_state queued_job))) = ''error''"
  "error (cur (process_job bad_open_env
      None False (init_state queued_job))) = Some ''cannot open file''"
  by (simp_all add: run_defs ok_env_def bad_open_env_def copy_pages_all_ok ramp60_values)

section \<open>The claims about the pipeline\<close>

text \<open>
  Claim C2. Over the lifetime of a job created by \<open>compress\<close>, the progress values written to
  the record never decrease; a record value has progress 100 exactly when its status is
  \<open>done\<close>, so no value has progress of 100 or more without status \<open>done\<close>; the run ends with
  status \<open>done\<close> or \<open>error\<close>, and a job that ends with status \<open>error\<close> keeps the progress it had
  before the failure, which is below 100. The progress written after each image is
  \<open>20 + int((idx / max(1, total)) * 60)\<close>, computed in binary floating point.
\<close>

theorem progress_monotone:
  "sorted (map progress (hist (process_job E xp ex (init_state (new_job now path)))))
    \<and> (\<forall>j \<in> set (hist (process_job E xp ex (init_state (new_job now path)))).
          (progress j = 100) = (status j = ''done'') \<and> (100 \<le> progress j \<longrightarrow> status j = ''done''))
    \<and> last (hist (process_job E xp ex (init_state (new_job now path))))
        = cur (process_job E xp ex (init_state (new_job now path)))
    \<and> (status (cur (process_job E xp ex (init_state (new_job now path)))) = ''done''
        \<or> status (cur (process_job E xp ex (init_state (new_job now path)))) = ''error'')
    \<and> (status (cur (process_job E xp ex (init_state (new_job now path)))) = ''error'' \<longrightarrow>
          progress (cur (process_job E xp ex (init_state (new_job now path)))) < 100
          \<and> progress (cur (process_job E xp ex (init_state (new_job now path))))
              = progress (last (butlast (hist (process_job E xp ex (init_state (new_job now path)))))))"
proof -
  let ?st = "process_job E xp ex (init_state (new_job now path))"
  consider (finished) b st5 where "?st = put (finish b) st5" "running_state st5" "progress_state 95 st5"
    | (failed) e st5 where "?st = put (fail e) st5" "running_state st5" "progress_state 95 st5"
    using process_job_shape[of E xp ex now path] by blast
  then show ?thesis
  proof cases
    case finished
    have le: "\<forall>j \<in> set (hist st5). progress j \<le> 95"
      using finished(3) by (fastforce simp: progress_state_def)
    have run: "\<forall>j \<in> set (hist st5). status j \<noteq> ''done''"
      using finished(2) by (simp add: running_state_def running_job_def)
    have srt: "sorted (map progress (hist st5))"
      using finished(3) by (simp add: progress_state_def)
    have "sorted (map progress (hist ?st))"
      unfolding finished(1) using srt le by (fastforce simp: sorted_append finish_def)
    moreover have "\<forall>j \<in> set (hist ?st).
          (progress j = 100) = (status j = ''done'') \<and> (100 \<le> progress j \<longrightarrow> status j = ''done'')"
      unfolding finished(1) using le run by (fastforce simp: finish_def)
    moreover have "last (hist ?st) = cur ?st" unfolding finished(1) by simp
    moreover have "status (cur ?st) = ''done''" unfolding finished(1) by (simp add: finish_def)
    ultimately show ?thesis by simp
  next
    case failed
    have le: "\<forall>j \<in> set (hist st5). progress j \<le> 95"
      using failed(3) by (fastforce simp: progress_state_def)
    have lec: "\<forall>j \<in> set (hist st5). progress j \<le> progress (cur st5)"
      using failed(3) by (simp add: progress_state_def)
    have c95: "progress (cur st5) \<le> 95"
      using failed(3) by (simp add: progress_state_def)
    have run: "\<forall>j \<in> set (hist st5). status j \<noteq> ''done''"
      using failed(2) by (simp add: running_state_def running_job_def)
    have srt: "sorted (map progress (hist st5))"
      using failed(3) by (simp add: progress_state_def)
    have lst: "last (hist st5) = cur st5"
      using failed(2) by (simp add: running_state_def)
    have "sorted (map progress (hist ?st))"
      unfolding failed(1) using srt lec by (simp add: sorted_append fail_def)
    moreover have "\<forall>j \<in> set (hist ?st).
          (progress j = 100) = (status j = ''done'') \<and> (100 \<le> progress j \<longrightarrow> status j = ''done'')"
      unfolding failed(1) using le run c95 by (fastforce simp: fail_def)
    moreover have "last (hist ?st) = cur ?st" unfolding failed(1) by simp
    moreover have "status (cur ?st) = ''error''" unfolding failed(1) by (simp add: fail_def)
    moreover have "progress (cur ?st) < 100"
      unfolding failed(1) using c95 by (simp add: fail_def)
    moreover have "progress (cur ?st) = progress (last (butlast (hist ?st)))"
      unfolding failed(1) using lst by (simp add: fail_def)
    ultimately show ?thesis by simp
  qed
qed

theorem progress_monotone_witness:
  "sorted (map progress (hist (process_job ok_env None False (init_state queued_job))))
   \<and> map progress (hist (process_job ok_env None False (init_state queued_job)))
       = [0, 0, 5, 5, 10, 10, 20, 50, 80, 80, 82, 82, 90, 90, 95, 100]
   \<and> cur (process_job ok_env None False (init_state queued_job))
       \<in> set (hist (process_job ok_env None False (init_state queued_job)))
   \<and> status (cur (process_job ok_env None False (init_state queued_job))) = ''done''
   \<and> progress (cur (process_job ok_env None False (init_state queued_job))) = 100
   \<and> status (cur (process_job bad_open_env None False (init_state queued_job))) = ''error''
   \<and> progress (cur (process_job bad_open_env None False (init_state queued_job))) < 100"
proof -
  let ?st = "process_job ok_env None False (init_state queued_job)"
  let ?sf = "process_job bad_open_env None False (init_state queued_job)"
  note t = progress_monotone[of ok_env None False 1000 "''/tmp/tmpab12.pdf''",
      folded queued_job_def]
  note f = progress_monotone[of bad_open_env None False 1000 "''/tmp/tmpab12.pdf''",
      folded queued_job_def]
  have s: "sorted (map progress (hist ?st))" by (rule t[THEN conjunct1])
  have c: "cur ?st \<in> set (hist ?st)"
    using process_job_cur_in_hist[of ok_env None False 1000 "''/tmp/tmpab12.pdf''"]
    by (simp add: queued_job_def)
  have "(progress (cur ?st) = 100) = (status (cur ?st) = ''done'')"
    using t[THEN conjunct2, THEN conjunct1] c by blast
  then have p: "progress (cur ?st) = 100" using ok_env_run(2) by simp
  have "status (cur ?sf) = ''error'' \<longrightarrow> progress (cur ?sf) < 100
          \<and> progress (cur ?sf) = progress (last (butlast (hist ?sf)))"
    by (rule f[THEN conjunct2, THEN conjunct2, THEN conjunct2, THEN conjunct2])
  then have q: "progress (cur ?sf) < 100" using failing_open_run(2) by blast
  show ?thesis
    using s ok_env_run(1) c ok_env_run(2) p failing_open_run(2) q by blast
qed

text \<open>
  Claim C8. In every value the job record takes, from the one \<open>compress\<close> stores (when it
  accepts the request) to the last
  write of \<open>process_job\<close>, the output buffer is present exactly when the status is \<open>done\<close> and
  the error message is not \<open>None\<close> exactly when the status is \<open>error\<close>. The record stored by
  \<open>compress\<close> has no buffer and no error; the last write is the done transition, which sets
  the buffer and clears the error, or the error transition, which sets the message and
  leaves the (absent) buffer alone.
\<close>

theorem buffer_and_error_flags:
  "(\<forall>j \<in> set (hist (process_job E xp ex (init_state (new_job now path)))).
      (output_buffer j \<noteq> None) = (status j = ''done'')
      \<and> (error j \<noteq> None) = (status j = ''error''))
   \<and> (\<forall>jobs2 pages. compress py jobs job_id now path form_value = Inr (jobs2, pages) \<longrightarrow>
         map_of jobs2 job_id = Some (new_job now path))
   \<and> status (new_job now path) = ''queued''
   \<and> output_buffer (new_job now path) = None \<and> error (new_job now path) = None
   \<and> ((\<exists>b j. cur (process_job E xp ex (init_state (new_job now path))) = finish b j)
       \<or> (\<exists>e j. cur (process_job E xp ex (init_state (new_job now path))) = fail e j
                \<and> output_buffer j = None))
   \<and> (\<forall>b j. status (finish b j) = ''done'' \<and> output_buffer (finish b j) = Some b
              \<and> error (finish b j) = None)
   \<and> (\<forall>e j. status (fail e j) = ''error'' \<and> error (fail e j) = Some (str_exn e)
              \<and> output_buffer (fail e j) = output_buffer j)"
proof -
  let ?st = "process_job E xp ex (init_state (new_job now path))"
  have new: "\<forall>jobs2 pages. compress py jobs job_id now path form_value = Inr (jobs2, pages) \<longrightarrow>
         map_of jobs2 job_id = Some (new_job now path)"
    by (auto simp: compress_def update_conv' split: sum.splits)
  have newf: "status (new_job now path) = ''queued''"
      "output_buffer (new_job now path) = None" "error (new_job now path) = None"
    by (simp_all add: new_job_def)
  have fin: "\<forall>b j. status (finish b j) = ''done'' \<and> output_buffer (finish b j) = Some b
              \<and> error (finish b j) = None"
    by (simp add: finish_def)
  have fl: "\<forall>e j. status (fail e j) = ''error'' \<and> error (fail e j) = Some (str_exn e)
              \<and> output_buffer (fail e j) = output_buffer j"
    by (simp add: fail_def)
  consider (finished) b st5 where "?st = put (finish b) st5" "running_state st5"
    | (failed) e st5 where "?st = put (fail e) st5" "running_state st5"
    using process_job_shape[of E xp ex now path] by blast
  then have "(\<forall>j \<in> set (hist ?st).
      (output_buffer j \<noteq> None) = (status j = ''done'')
      \<and> (error j \<noteq> None) = (status j = ''error''))
    \<and> ((\<exists>b j. cur ?st = finish b j) \<or> (\<exists>e j. cur ?st = fail e j \<and> output_buffer j = None))"
  proof cases
    case finished
    have "\<forall>j \<in> set (hist st5). running_job j"
      using finished(2) by (simp add: running_state_def)
    then have "\<forall>j \<in> set (hist ?st).
      (output_buffer j \<noteq> None) = (status j = ''done'')
      \<and> (error j \<noteq> None) = (status j = ''error'')"
      unfolding finished(1) by (auto simp: running_job_def finish_def)
    moreover have "\<exists>b j. cur ?st = finish b j"
      unfolding finished(1) by auto
    ultimately show ?thesis by blast
  next
    case failed
    have r: "\<forall>j \<in> set (hist st5). running_job j"
      using failed(2) by (simp add: running_state_def)
    have rc: "running_job (cur st5)" by (rule running_cur[OF failed(2)])
    have "\<forall>j \<in> set (hist ?st).
      (output_buffer j \<noteq> None) = (status j = ''done'')
      \<and> (error j \<noteq> None) = (status j = ''error'')"
      unfolding failed(1) using r rc by (auto simp: running_job_def fail_def)
    moreover have "\<exists>e j. cur ?st = fail e j \<and> output_buffer j = None"
      unfolding failed(1) using rc by (auto simp: running_job_def)
    ultimately show ?thesis by blast
  qed
  then show ?thesis using new newf fin fl by blast
qed

theorem buffer_and_error_flags_witness:
  "cur (process_job ok_env None False (init_state queued_job))
       \<in> set (hist (process_job ok_env None False (init_state queued_job)))
   \<and> status (cur (process_job ok_env None False (init_state queued_job))) = ''done''
   \<and> output_buffer (cur (process_job ok_env None False (init_state queued_job))) \<noteq> None
   \<and> error (cur (process_job ok_env None False (init_state queued_job))) = None
   \<and> cur (process_job bad_open_env None False (init_state queued_job))
       \<in> set (hist (process_job bad_open_env None False (init_state queued_job)))
   \<and> status (cur (process_job bad_open_env None False (init_state queued_job))) = ''error''
   \<and> error (cur (process_job bad_open_env None False (init_state queued_job))) \<noteq> None
   \<and> output_buffer (cur (process_job bad_open_env None False (init_state queued_job))) = None
   \<and> compress latin1 [] ''j1'' 1000 ''/tmp/tmpab12.pdf'' (cps ''2'')
       = Inr ([(''j1'', queued_job)], [2])
   \<and> map_of [(''j1'', queued_job)] ''j1'' = Some queued_job"
proof -
  let ?st = "process_job ok_env None False (init_state queued_job)"
  let ?sf = "process_job bad_open_env None False (init_state queued_job)"
  have pp: "parse_extract_pages latin1 (cps ''2'') = Inr [2]" by code_simp
  have cmp: "compress latin1 [] ''j1'' 1000 ''/tmp/tmpab12.pdf'' (cps ''2'')
       = Inr ([(''j1'', queued_job)], [2])"
    by (simp add: compress_def pp queued_job_def)
  have reg: "map_of [(''j1'', queued_job)] ''j1'' = Some queued_job"
    using buffer_and_error_flags[where py = latin1 and jobs = "[]" and job_id = "''j1''"
        and now = 1000 and path = "''/tmp/tmpab12.pdf''" and form_value = "cps ''2''",
        folded queued_job_def, THEN conjunct2, THEN conjunct1, THEN spec, THEN spec, THEN mp,
        OF cmp] .
  note t = buffer_and_error_flags[of ok_env None False 1000 "''/tmp/tmpab12.pdf''",
      folded queued_job_def, THEN conjunct1]
  note f = buffer_and_error_flags[of bad_open_env None False 1000 "''/tmp/tmpab12.pdf''",
      folded queued_job_def, THEN conjunct1]
  have c: "cur ?st \<in> set (hist ?st)"
    using process_job_cur_in_hist[of ok_env None False 1000 "''/tmp/tmpab12.pdf''"]
    by (simp add: queued_job_def)
  have d: "cur ?sf \<in> set (hist ?sf)"
    using process_job_cur_in_hist[of bad_open_env None False 1000 "''/tmp/tmpab12.pdf''"]
    by (simp add: queued_job_def)
  have tc: "(output_buffer (cur ?st) \<noteq> None) = (status (cur ?st) = ''done'')
      \<and> (error (cur ?st) \<noteq> None) = (status (cur ?st) = ''error'')"
    using t c by blast
  have fc: "(output_buffer (cur ?sf) \<noteq> None) = (status (cur ?sf) = ''done'')
      \<and> (error (cur ?sf) \<noteq> None) = (status (cur ?sf) = ''error'')"
    using f d by blast
  have "output_buffer (cur ?st) \<noteq> None" "error (cur ?st) = None"
    using tc ok_env_run(2) by simp_all
  moreover have "error (cur ?sf) \<noteq> None" "output_buffer (cur ?sf) = None"
    using fc failing_open_run(2) by simp_all
  ultimately show ?thesis
    using c d ok_env_run(2) failing_open_run(2) cmp reg by blast
qed

text \<open>
  Claim C3. For a non-empty page list, \<open>process_job\<close> subtracts one from each entry, keeps the
  entries in \<open>[0, page_count)\<close>, and raises the invalid-selection error exactly when nothing is
  left (no other error comes from this step), in which case the job ends with status
  \<open>error\<close> and that message; otherwise the kept entries are the selection. Without a list (or
  with an empty one) all pages are selected in order.
\<close>

theorem page_selection:
  "(ps \<noteq> [] \<longrightarrow>
      ((select_keep (Some ps) n = Inl (ValueError ''No valid pages selected.''))
         = (filter (\<lambda>p. 0 \<le> p \<and> p < int n) (map (\<lambda>p. p - 1) ps) = []))
      \<and> (\<forall>e. select_keep (Some ps) n = Inl e \<longrightarrow> e = ValueError ''No valid pages selected.'')
      \<and> (filter (\<lambda>p. 0 \<le> p \<and> p < int n) (map (\<lambda>p. p - 1) ps) \<noteq> [] \<longrightarrow>
           (\<exists>l. select_keep (Some ps) n
                  = Inr (filter (\<lambda>p. 0 \<le> p \<and> p < int n) (map (\<lambda>p. p - 1) ps), l)))
      \<and> (filter (\<lambda>p. 0 \<le> p \<and> p < int n) (map (\<lambda>p. p - 1) ps) = [] \<and> open_src E = Inr n \<longrightarrow>
           status (cur (process_job E (Some ps) ex st)) = ''error''
           \<and> error (cur (process_job E (Some ps) ex st)) = Some ''No valid pages selected.''))
   \<and> select_keep None n = Inr (map int [0..<n], ''Processing all pages...'')
   \<and> select_keep (Some []) n = Inr (map int [0..<n], ''Processing all pages...'')"
proof (intro conjI impI)
  assume ps: "ps \<noteq> []"
  show "(select_keep (Some ps) n = Inl (ValueError ''No valid pages selected.''))
         = (filter (\<lambda>p. 0 \<le> p \<and> p < int n) (map (\<lambda>p. p - 1) ps) = [])"
    by (simp add: select_keep_explicit[OF ps] Let_def)
  show "\<forall>e. select_keep (Some ps) n = Inl e \<longrightarrow> e = ValueError ''No valid pages selected.''"
    by (auto simp: select_keep_explicit[OF ps] Let_def split: if_splits)
next
  assume "ps \<noteq> []" and "filter (\<lambda>p. 0 \<le> p \<and> p < int n) (map (\<lambda>p. p - 1) ps) \<noteq> []"
  then show "\<exists>l. select_keep (Some ps) n
                  = Inr (filter (\<lambda>p. 0 \<le> p \<and> p < int n) (map (\<lambda>p. p - 1) ps), l)"
    by (simp add: select_keep_explicit Let_def)
next
  assume ps: "ps \<noteq> []"
    and h: "filter (\<lambda>p. 0 \<le> p \<and> p < int n) (map (\<lambda>p. p - 1) ps) = [] \<and> open_src E = Inr n"
  have sel: "select_keep (Some ps) n = Inl (ValueError ''No valid pages selected.'')"
    using h by (simp add: select_keep_explicit[OF ps] Let_def)
  have c: "cur (process_job E (Some ps) ex st)
      = fail (ValueError ''No valid pages selected.'')
          (cur (set_progress 5 (set_status ''Initializing...'' st)))"
    using h by (intro process_job_select_error[OF _ sel]) simp
  show "status (cur (process_job E (Some ps) ex st)) = ''error''"
    unfolding c by (simp add: fail_def)
  show "error (cur (process_job E (Some ps) ex st)) = Some ''No valid pages selected.''"
    unfolding c by (simp add: fail_def)
next
  show "select_keep None n = Inr (map int [0..<n], ''Processing all pages...'')"
    by (rule select_keep_all)
  show "select_keep (Some []) n = Inr (map int [0..<n], ''Processing all pages...'')"
    by (rule select_keep_all)
qed

theorem page_selection_witness:
  "[7, 0, 4] \<noteq> ([]::int list)
   \<and> filter (\<lambda>p. 0 \<le> p \<and> p < int 3) (map (\<lambda>p. p - 1) [7, 0, 4]) = []
   \<and> select_keep (Some [7, 0, 4]) 3 = Inl (ValueError ''No valid pages selected.'')
   \<and> open_src ok_env = Inr 3
   \<and> status (cur (process_job ok_env (Some [7, 0, 4]) False (init_state queued_job))) = ''error''
   \<and> error (cur (process_job ok_env (Some [7, 0, 4]) False (init_state queued_job)))
       = Some ''No valid pages selected.''
   \<and> filter (\<lambda>p. 0 \<le> p \<and> p < int 3) (map (\<lambda>p. p - 1) [3, 9, 1]) = [2, 0]
   \<and> (\<exists>l. select_keep (Some [3, 9, 1]) 3 = Inr ([2, 0], l))"
proof -
  have ne: "[7, 0, 4] \<noteq> ([]::int list)" "[3, 9, 1] \<noteq> ([]::int list)" by simp_all
  have e: "filter (\<lambda>p. 0 \<le> p \<and> p < int 3) (map (\<lambda>p. p - 1) [7, 0, 4]) = []" by simp
  have o: "open_src ok_env = Inr 3" by (simp add: ok_env_def)
  have k: "filter (\<lambda>p. 0 \<le> p \<and> p < int 3) (map (\<lambda>p. p - 1) [3, 9, 1]) = [2, 0]" by simp
  note t = page_selection[of "[7, 0, 4]" 3 ok_env False "init_state queued_job", THEN conjunct1,
      rule_format, OF ne(1)]
  note u = page_selection[of "[3, 9, 1]" 3 ok_env False "init_state queued_job", THEN conjunct1,
      rule_format, OF ne(2)]
  have a: "select_keep (Some [7, 0, 4]) 3 = Inl (ValueError ''No valid pages selected.'')"
    using t[THEN conjunct1] e by simp
  have b: "status (cur (process_job ok_env (Some [7, 0, 4]) False (init_state queued_job))) = ''error''
      \<and> error (cur (process_job ok_env (Some [7, 0, 4]) False (init_state queued_job)))
       = Some ''No valid pages selected.''"
    using t[THEN conjunct2, THEN conjunct2, THEN conjunct2] e o by blast
  have c: "\<exists>l. select_keep (Some [3, 9, 1]) 3 = Inr ([2, 0], l)"
    using u[THEN conjunct2, THEN conjunct2, THEN conjunct1] k by simp
  show ?thesis using ne(1) e a o b k c by blast
qed

lemma process_job_empty_list:
  "process_job E (Some []) ex st = process_job E None ex st"
  unfolding process_job_def run_pipeline_def select_keep_all ..

lemma int_all_Inr:
  "int_all py ts = Inr vs \<Longrightarrow> length vs = length ts"
  by (induction ts arbitrary: vs) (auto split: sum.splits)

lemma int_all_Inl:
  "int_all py ts = Inl e \<Longrightarrow> \<exists>t \<in> set ts. py_int py t = Inl e"
  by (induction ts) (auto split: sum.splits)

text \<open>
  Claim C10. If no comma-separated token of the submitted \<open>extract_pages\<close> string is a digit
  string (in the sense of \<open>str.isdigit\<close>, after \<open>strip\<close>), every token is dropped, the parsed
  page list is empty, the request is accepted and \<open>process_job\<close> behaves exactly as without a
  page list: all pages are selected. The invalid-selection error arises only when some
  token is a digit string and every parsed page number lies outside \<open>1 .. page_count\<close>. (A
  digit string that \<open>int\<close> refuses makes \<open>compress\<close> answer 500, and no job exists.)
\<close>

theorem non_digit_tokens_select_all:
  "((\<forall>t \<in> set (split_comma (strip py s)). \<not> isdigit py (strip py t)) \<longrightarrow>
       parse_extract_pages py s = Inr []
       \<and> compress py jobs job_id now path s
           = Inr (AList.update job_id (new_job now path) jobs, [])
       \<and> select_keep (Some []) n = Inr (map int [0..<n], ''Processing all pages...'')
       \<and> process_job E (Some []) ex st = process_job E None ex st)
   \<and> (\<forall>pages e. parse_extract_pages py s = Inr pages \<and> select_keep (Some pages) n = Inl e \<longrightarrow>
         e = ValueError ''No valid pages selected.''
         \<and> (\<exists>t \<in> set (split_comma (strip py s)). isdigit py (strip py t))
         \<and> (\<forall>p \<in> set pages. p < 1 \<or> int n < p))
   \<and> (\<forall>e. parse_extract_pages py s = Inl e \<longrightarrow>
         compress py jobs job_id now path s = Inl (500, str_exn e)
         \<and> (\<exists>t \<in> set (split_comma (strip py s)). isdigit py (strip py t) \<and> py_int py t = Inl e))"
proof (intro conjI impI allI)
  assume nd: "\<forall>t \<in> set (split_comma (strip py s)). \<not> isdigit py (strip py t)"
  then have f: "filter (\<lambda>p. isdigit py (strip py p)) (split_comma (strip py s)) = []"
    by (simp add: filter_empty_conv)
  show p: "parse_extract_pages py s = Inr []"
    using f by (simp add: parse_extract_pages_def Let_def)
  show "compress py jobs job_id now path s
           = Inr (AList.update job_id (new_job now path) jobs, [])"
    using p by (simp add: compress_def)
  show "select_keep (Some []) n = Inr (map int [0..<n], ''Processing all pages...'')"
    by (rule select_keep_all)
  show "process_job E (Some []) ex st = process_job E None ex st"
    by (rule process_job_empty_list)
next
  fix pages e
  assume h: "parse_extract_pages py s = Inr pages \<and> select_keep (Some pages) n = Inl e"
  then have ne: "pages \<noteq> []" by (auto simp: select_keep_all)
  have sel: "select_keep (Some pages) n = Inl e" using h by simp
  show "e = ValueError ''No valid pages selected.''"
    using sel by (auto simp: select_keep_explicit[OF ne] Let_def split: if_splits)
  have emp: "filter (\<lambda>p. 0 \<le> p \<and> p < int n) (map (\<lambda>p. p - 1) pages) = []"
    using sel by (auto simp: select_keep_explicit[OF ne] Let_def split: if_splits)
  show "\<forall>p \<in> set pages. p < 1 \<or> int n < p"
  proof
    fix p assume "p \<in> set pages"
    then have "\<not> (0 \<le> p - 1 \<and> p - 1 < int n)"
      using emp by (auto simp: filter_empty_conv)
    then show "p < 1 \<or> int n < p" by auto
  qed
  show "\<exists>t \<in> set (split_comma (strip py s)). isdigit py (strip py t)"
  proof (rule ccontr)
    assume "\<not> (\<exists>t \<in> set (split_comma (strip py s)). isdigit py (strip py t))"
    then have "filter (\<lambda>p. isdigit py (strip py p)) (split_comma (strip py s)) = []"
      by (simp add: filter_empty_conv)
    then have "parse_extract_pages py s = Inr []"
      by (simp add: parse_extract_pages_def Let_def)
    then show False using h ne by simp
  qed
next
  fix e
  assume h: "parse_extract_pages py s = Inl e"
  show "compress py jobs job_id now path s = Inl (500, str_exn e)"
    using h by (simp add: compress_def)
  have "int_all py (filter (\<lambda>p. isdigit py (strip py p)) (split_comma (strip py s))) = Inl e"
    using h by (simp add: parse_extract_pages_def Let_def split: if_splits)
  from int_all_Inl[OF this]
  show "\<exists>t \<in> set (split_comma (strip py s)). isdigit py (strip py t) \<and> py_int py t = Inl e"
    by auto
qed

theorem non_digit_tokens_select_all_witness:
  "split_comma (strip latin1 (cps ''a,b'')) = [cps ''a'', cps ''b'']
   \<and> \<not> isdigit latin1 (strip latin1 (cps ''a'')) \<and> \<not> isdigit latin1 (strip latin1 (cps ''b''))
   \<and> parse_extract_pages latin1 (cps ''a,b'') = Inr []
   \<and> compress latin1 [] ''j1'' 1000 ''/tmp/tmpab12.pdf'' (cps ''a,b'') = Inr ([(''j1'', queued_job)], [])
   \<and> process_job ok_env (Some []) False (init_state queued_job)
       = process_job ok_env None False (init_state queued_job)
   \<and> split_comma (strip latin1 (cps ''1.5'')) = [cps ''1.5'']
   \<and> \<not> isdigit latin1 (strip latin1 (cps ''1.5''))
   \<and> parse_extract_pages latin1 (cps ''1.5'') = Inr []
   \<and> parse_extract_pages latin1 (cps ''7, 9'') = Inr [7, 9]
   \<and> select_keep (Some [7, 9]) 3 = Inl (ValueError ''No valid pages selected.'')
   \<and> (\<exists>t \<in> set (split_comma (strip latin1 (cps ''7, 9''))). isdigit latin1 (strip latin1 t))
   \<and> parse_extract_pages latin1 [178] = Inl (ValueError ''invalid literal for int() with base 10'')
   \<and> compress latin1 [] ''j1'' 1000 ''/tmp/tmpab12.pdf'' [178]
       = Inl (500, ''invalid literal for int() with base 10'')"
proof -
  let ?st = "init_state queued_job"
  have sa: "split_comma (strip latin1 (cps ''a,b'')) = [cps ''a'', cps ''b'']" by code_simp
  have da: "\<not> isdigit latin1 (strip latin1 (cps ''a''))" "\<not> isdigit latin1 (strip latin1 (cps ''b''))"
    by code_simp+
  have sb: "split_comma (strip latin1 (cps ''1.5'')) = [cps ''1.5'']" by code_simp
  have db: "\<not> isdigit latin1 (strip latin1 (cps ''1.5''))" by code_simp
  have a: "\<forall>t \<in> set (split_comma (strip latin1 (cps ''a,b''))). \<not> isdigit latin1 (strip latin1 t)"
    unfolding sa using da by simp
  have b: "\<forall>t \<in> set (split_comma (strip latin1 (cps ''1.5''))). \<not> isdigit latin1 (strip latin1 t)"
    unfolding sb using db by simp
  have c: "parse_extract_pages latin1 (cps ''7, 9'') = Inr [7, 9]" by code_simp
  have d: "select_keep (Some [7, 9]) 3 = Inl (ValueError ''No valid pages selected.'')"
    by (simp add: select_keep_def)
  have e: "parse_extract_pages latin1 [178]
             = Inl (ValueError ''invalid literal for int() with base 10'')" by code_simp
  note ta = non_digit_tokens_select_all[where py = latin1 and s = "cps ''a,b''" and n = 3
      and E = ok_env and ex = False and st = ?st and jobs = "[]" and job_id = "''j1''"
      and now = 1000 and path = "''/tmp/tmpab12.pdf''", THEN conjunct1, THEN mp, OF a]
  note tb = non_digit_tokens_select_all[where py = latin1 and s = "cps ''1.5''" and n = 3
      and E = ok_env and ex = False and st = ?st and jobs = "[]" and job_id = "''j1''"
      and now = 1000 and path = "''/tmp/tmpab12.pdf''", THEN conjunct1, THEN mp, OF b]
  note tc = non_digit_tokens_select_all[where py = latin1 and s = "cps ''7, 9''" and n = 3
      and E = ok_env and ex = False and st = ?st and jobs = "[]" and job_id = "''j1''"
      and now = 1000 and path = "''/tmp/tmpab12.pdf''", THEN conjunct2, THEN conjunct1,
      THEN spec, THEN spec, THEN mp, OF conjI[OF c d]]
  note td = non_digit_tokens_select_all[where py = latin1 and s = "[178]" and n = 3
      and E = ok_env and ex = False and st = ?st and jobs = "[]" and job_id = "''j1''"
      and now = 1000 and path = "''/tmp/tmpab12.pdf''", THEN conjunct2, THEN conjunct2,
      THEN spec, THEN mp, OF e]
  have ca: "compress latin1 [] ''j1'' 1000 ''/tmp/tmpab12.pdf'' (cps ''a,b'')
              = Inr ([(''j1'', queued_job)], [])"
    using ta[THEN conjunct2, THEN conjunct1] by (simp add: queued_job_def)
  have cd: "compress latin1 [] ''j1'' 1000 ''/tmp/tmpab12.pdf'' [178]
              = Inl (500, ''invalid literal for int() with base 10'')"
    using td[THEN conjunct1] by simp
  show ?thesis
    using sa da ta[THEN conjunct1] ca ta[THEN conjunct2, THEN conjunct2, THEN conjunct2]
      sb db tb[THEN conjunct1] c d tc[THEN conjunct2, THEN conjunct1] e cd by blast
qed

text \<open>
  Two page lists outside ASCII, under the tables of CPython 3.11: a no-break space is
  white space for \<open>strip\<close> and for \<open>int\<close>, and the superscript two is a digit for \<open>isdigit\<close> that
  \<open>int\<close> refuses; so is the digit five after the separator 28, which \<open>strip\<close> removes and \<open>int\<close>
  does not.
\<close>

lemma parse_extract_pages_latin1:
  "parse_extract_pages latin1 [160, 49] = Inr [1]"
  "isdigit latin1 (strip latin1 [178])"
  "py_int latin1 [178] = Inl (ValueError ''invalid literal for int() with base 10'')"
  "isdigit latin1 (strip latin1 [28, 53])"
  "py_int latin1 [28, 53] = Inl (ValueError ''invalid literal for int() with base 10'')"
  by code_simp+

lemma process_job_done:
  assumes "open_src E = Inr n" and "select_keep xp n = Inr (keep, l)"
    and "fst (copy_pages E keep st') = None" and "collect_xrefs E = Inr xs"
    and "save_work E = Inr b"
  shows "cur (process_job E xp ex st)
           = finish (pikepdf_optimize E (ghostscript_compress E b ex))
               (cur (set_progress 95 (set_status ''Optimizing final PDF structure...''
                  (set_progress 90 (set_status ''Applying Ghostscript compression...''
                     (snd (work_stage E keep ex
                        (set_progress 10 (set_status l
                           (set_progress 5 (set_status ''Initializing...'' st)))))))))))"
proof -
  let ?st2 = "set_progress 10 (set_status l (set_progress 5 (set_status ''Initializing...'' st)))"
  have "fst (copy_pages E keep ?st2) = None"
  proof -
    have "(fst (copy_pages E keep ?st2) \<noteq> None) = (fst (copy_pages E keep st') \<noteq> None)"
      by (simp only: copy_pages_fails_iff)
    then show ?thesis using assms(3) by simp
  qed
  then have "fst (work_stage E keep ex ?st2) = Inr b"
    using assms(4,5) by (simp add: work_stage_fst)
  then obtain st3 where w: "work_stage E keep ex ?st2 = (Inr b, st3)"
    by (cases "work_stage E keep ex ?st2") simp
  show ?thesis
    using assms(1,2) w by (simp add: process_job_def run_pipeline_def Let_def)
qed

text \<open>
  Claim C4, as amended. Each selected page is first copied with its links. Only when that
  attempt raises a \<open>ValueError\<close> is the page copied again without links, with a warning in the
  log and no write to the job record. The copy loop raises exactly when, for some selected
  page, the first attempt raises another exception or the first raises \<open>ValueError\<close> and the
  second attempt raises too; the job then ends with status \<open>error\<close>.
\<close>

theorem page_copy_fallback:
  "((fst (copy_pages E keep st) \<noteq> None) =
      (\<exists>p \<in> set keep.
         (\<exists>m. insert_pdf E p True = Some (OtherError m))
         \<or> ((\<exists>m. insert_pdf E p True = Some (ValueError m)) \<and> insert_pdf E p False \<noteq> None)))
   \<and> (insert_pdf E p True = None \<longrightarrow> copy_pages E [p] st = (None, st))
   \<and> (insert_pdf E p True = Some (ValueError m) \<and> insert_pdf E p False = None \<longrightarrow>
         copy_pages E [p] st = (None, log_msg WARNING (link_warning p (ValueError m)) st))
   \<and> cur (snd (copy_pages E keep st)) = cur st
   \<and> hist (snd (copy_pages E keep st)) = hist st
   \<and> (fst (copy_pages E keep st) = None \<longrightarrow>
         logs (snd (copy_pages E keep st)) =
           logs st @ concat (map (\<lambda>p. case insert_pdf E p True of
                                         None \<Rightarrow> []
                                       | Some e \<Rightarrow> [(WARNING, link_warning p e)]) keep))
   \<and> (open_src E = Inr n \<and> select_keep xp n = Inr (keep, l)
        \<and> fst (copy_pages E keep st) \<noteq> None \<longrightarrow>
         status (cur (process_job E xp ex st2)) = ''error'')"
proof (intro conjI impI)
  show "(fst (copy_pages E keep st) \<noteq> None) =
      (\<exists>p \<in> set keep.
         (\<exists>m. insert_pdf E p True = Some (OtherError m))
         \<or> ((\<exists>m. insert_pdf E p True = Some (ValueError m)) \<and> insert_pdf E p False \<noteq> None))"
    by (rule copy_pages_fails_iff)
  show "cur (snd (copy_pages E keep st)) = cur st" by simp
  show "hist (snd (copy_pages E keep st)) = hist st" by simp
next
  assume "insert_pdf E p True = None"
  then show "copy_pages E [p] st = (None, st)" by simp
next
  assume "insert_pdf E p True = Some (ValueError m) \<and> insert_pdf E p False = None"
  then show "copy_pages E [p] st = (None, log_msg WARNING (link_warning p (ValueError m)) st)"
    by (simp add: Let_def)
next
  assume "fst (copy_pages E keep st) = None"
  then show "logs (snd (copy_pages E keep st)) =
           logs st @ concat (map (\<lambda>p. case insert_pdf E p True of
                                         None \<Rightarrow> []
                                       | Some e \<Rightarrow> [(WARNING, link_warning p e)]) keep)"
    by (rule copy_pages_logs)
next
  assume "open_src E = Inr n \<and> select_keep xp n = Inr (keep, l)
        \<and> fst (copy_pages E keep st) \<noteq> None"
  then show "status (cur (process_job E xp ex st2)) = ''error''"
    using process_job_copy_error[of E n xp keep l st ex st2] by blast
qed

lemma bad_link_env_facts:
  "insert_pdf bad_link_env 1 True = Some (ValueError ''invalid literal for int()'')"
  "insert_pdf bad_link_env 1 False = None"
  "insert_pdf bad_link_env 0 True = None"
  "insert_pdf bad_link_env 2 True = None"
  by (simp_all add: bad_link_env_def ok_env_def)

lemma bad_copy_env_facts:
  "insert_pdf bad_copy_env 0 True = Some (OtherError ''cannot find page tree'')"
  "insert_pdf bad_copy_env 0 False = None"
  "open_src bad_copy_env = Inr 1"
  by (simp_all add: bad_copy_env_def ok_env_def)

theorem page_copy_fallback_witness:
  "insert_pdf bad_link_env 1 True = Some (ValueError ''invalid literal for int()'')
   \<and> insert_pdf bad_link_env 1 False = None
   \<and> copy_pages bad_link_env [1] (init_state queued_job)
       = (None, log_msg WARNING (link_warning 1 (ValueError ''invalid literal for int()''))
                  (init_state queued_job))
   \<and> fst (copy_pages bad_link_env [0, 1, 2] (init_state queued_job)) = None
   \<and> logs (snd (copy_pages bad_link_env [0, 1, 2] (init_state queued_job)))
       = [(WARNING, link_warning 1 (ValueError ''invalid literal for int()''))]
   \<and> open_src bad_copy_env = Inr 1
   \<and> select_keep None 1 = Inr ([0], ''Processing all pages...'')
   \<and> fst (copy_pages bad_copy_env [0] (init_state queued_job)) \<noteq> None
   \<and> status (cur (process_job bad_copy_env None False (init_state queued_job))) = ''error''"
proof -
  let ?s = "init_state queued_job"
  note t1 = page_copy_fallback[where E = bad_link_env and keep = "[1]" and st = ?s and p = 1
      and m = "''invalid literal for int()''" and n = 3 and xp = None
      and l = "''Processing all pages...''" and ex = False and ?st2.0 = ?s]
  note t3 = page_copy_fallback[where E = bad_link_env and keep = "[0, 1, 2]" and st = ?s and p = 1
      and m = "''invalid literal for int()''" and n = 3 and xp = None
      and l = "''Processing all pages...''" and ex = False and ?st2.0 = ?s]
  note tb = page_copy_fallback[where E = bad_copy_env and keep = "[0]" and st = ?s and p = 0
      and m = "[]" and n = 1 and xp = None
      and l = "''Processing all pages...''" and ex = False and ?st2.0 = ?s]
  have a: "copy_pages bad_link_env [1] ?s
       = (None, log_msg WARNING (link_warning 1 (ValueError ''invalid literal for int()'')) ?s)"
    using t1[THEN conjunct2, THEN conjunct2, THEN conjunct1] bad_link_env_facts(1,2) by blast
  have b: "fst (copy_pages bad_link_env [0, 1, 2] ?s) = None"
    using t3[THEN conjunct1] bad_link_env_facts by simp
  have c: "logs (snd (copy_pages bad_link_env [0, 1, 2] ?s))
       = [(WARNING, link_warning 1 (ValueError ''invalid literal for int()''))]"
    using t3[THEN conjunct2, THEN conjunct2, THEN conjunct2, THEN conjunct2, THEN conjunct2,
        THEN conjunct1] b bad_link_env_facts
    by (simp add: init_state_def)
  have s: "select_keep None 1 = Inr ([0], ''Processing all pages...'')"
    by (simp add: select_keep_def)
  have d: "fst (copy_pages bad_copy_env [0] ?s) \<noteq> None"
    using tb[THEN conjunct1] bad_copy_env_facts(1) by simp
  have e: "status (cur (process_job bad_copy_env None False ?s)) = ''error''"
    using tb[THEN conjunct2, THEN conjunct2, THEN conjunct2, THEN conjunct2, THEN conjunct2,
        THEN conjunct2] bad_copy_env_facts(3) s d by blast
  show ?thesis
    using bad_link_env_facts(1,2) a b c bad_copy_env_facts(3) s d e by blast
qed

text \<open>
  Claim C4 as first stated does not hold: in \<open>bad_copy_env\<close> the only page fails the copy
  with links for a reason other than a \<open>ValueError\<close>. The copy without links would succeed, but
  it is never tried, and the job ends with status \<open>error\<close> although no page failed both
  attempts.
\<close>

theorem page_copy_counterexample:
  "insert_pdf bad_copy_env 0 True = Some (OtherError ''cannot find page tree'')
   \<and> insert_pdf bad_copy_env 0 False = None
   \<and> status (cur (process_job bad_copy_env None False (init_state queued_job))) = ''error''
   \<and> error (cur (process_job bad_copy_env None False (init_state queued_job)))
       = Some ''cannot find page tree''
   \<and> logs (process_job bad_copy_env None False (init_state queued_job))
       = [(ERROR, ''Job failed: cannot find page tree'')]
   \<and> \<not> ((status (cur (process_job bad_copy_env None False (init_state queued_job))) = ''error'')
          = (insert_pdf bad_copy_env 0 True \<noteq> None \<and> insert_pdf bad_copy_env 0 False \<noteq> None))"
  by (simp add: run_defs bad_copy_env_def ok_env_def log_msg_def put_def)

text \<open>
  Claim C5. \<open>ghostscript_compress\<close> returns its input when no executable is found, when
  starting or talking to the process raises, when the return code is not zero and when the
  output is empty; \<open>pikepdf_optimize\<close> returns its input when its body raises. So when the
  document is assembled and saved as bytes \<open>b\<close> and neither tool is available, the job ends
  with status \<open>done\<close>, progress 100 and output buffer \<open>b\<close>.
\<close>

theorem tool_failures_pass_through:
  "(find_ghostscript_exe E = None \<longrightarrow> ghostscript_compress E b ex = b)
   \<and> ((\<forall>c. which E c = None) \<longrightarrow> find_ghostscript_exe E = None)
   \<and> (\<forall>exe. find_ghostscript_exe E = Some exe \<longrightarrow>
         ((\<exists>e. popen E (gs_cmd exe ex) b = Inl e) \<longrightarrow> ghostscript_compress E b ex = b)
         \<and> (\<forall>rc out err. popen E (gs_cmd exe ex) b = Inr (rc, out, err) \<and> (rc \<noteq> 0 \<or> out = [])
               \<longrightarrow> ghostscript_compress E b ex = b))
   \<and> ((\<exists>e. pike E b = Inl e) \<longrightarrow> pikepdf_optimize E b = b)
   \<and> (open_src E = Inr n \<and> select_keep xp n = Inr (keep, l)
        \<and> fst (copy_pages E keep st) = None \<and> (\<exists>xs. collect_xrefs E = Inr xs)
        \<and> save_work E = Inr b
        \<and> find_ghostscript_exe E = None \<and> (\<exists>e. pike E b = Inl e) \<longrightarrow>
         status (cur (process_job E xp ex st)) = ''done''
         \<and> progress (cur (process_job E xp ex st)) = 100
         \<and> output_buffer (cur (process_job E xp ex st)) = Some b)"
proof (intro conjI impI allI)
  assume "find_ghostscript_exe E = None"
  then show "ghostscript_compress E b ex = b" by (simp add: ghostscript_compress_def)
next
  assume "\<forall>c. which E c = None"
  then show "find_ghostscript_exe E = None" by (simp add: find_ghostscript_exe_def)
next
  fix exe assume "find_ghostscript_exe E = Some exe" "\<exists>e. popen E (gs_cmd exe ex) b = Inl e"
  then show "ghostscript_compress E b ex = b" by (auto simp: ghostscript_compress_def)
next
  fix exe rc out err
  assume "find_ghostscript_exe E = Some exe"
    "popen E (gs_cmd exe ex) b = Inr (rc, out, err) \<and> (rc \<noteq> 0 \<or> out = [])"
  then show "ghostscript_compress E b ex = b" by (auto simp: ghostscript_compress_def)
next
  assume "\<exists>e. pike E b = Inl e"
  then show "pikepdf_optimize E b = b" by (auto simp: pikepdf_optimize_def)
next
  assume h: "open_src E = Inr n \<and> select_keep xp n = Inr (keep, l)
        \<and> fst (copy_pages E keep st) = None \<and> (\<exists>xs. collect_xrefs E = Inr xs)
        \<and> save_work E = Inr b
        \<and> find_ghostscript_exe E = None \<and> (\<exists>e. pike E b = Inl e)"
  then obtain xs where xs: "collect_xrefs E = Inr xs" by blast
  have g: "pikepdf_optimize E (ghostscript_compress E b ex) = b"
    using h by (auto simp: pikepdf_optimize_def ghostscript_compress_def)
  have c: "cur (process_job E xp ex st)
           = finish b
               (cur (set_progress 95 (set_status ''Optimizing final PDF structure...''
                  (set_progress 90 (set_status ''Applying Ghostscript compression...''
                     (snd (work_stage E keep ex
                        (set_progress 10 (set_status l
                           (set_progress 5 (set_status ''Initializing...'' st)))))))))))"
  proof -
    have "cur (process_job E xp ex st)
           = finish (pikepdf_optimize E (ghostscript_compress E b ex))
               (cur (set_progress 95 (set_status ''Optimizing final PDF structure...''
                  (set_progress 90 (set_status ''Applying Ghostscript compression...''
                     (snd (work_stage E keep ex
                        (set_progress 10 (set_status l
                           (set_progress 5 (set_status ''Initializing...'' st)))))))))))"
      by (rule process_job_done[OF h[THEN conjunct1] h[THEN conjunct2, THEN conjunct1]
            h[THEN conjunct2, THEN conjunct2, THEN conjunct1] xs
            h[THEN conjunct2, THEN conjunct2, THEN conjunct2, THEN conjunct2, THEN conjunct1]])
    then show ?thesis by (simp only: g)
  qed
  show "status (cur (process_job E xp ex st)) = ''done''" unfolding c by (simp add: finish_def)
  show "progress (cur (process_job E xp ex st)) = 100" unfolding c by (simp add: finish_def)
  show "output_buffer (cur (process_job E xp ex st)) = Some b" unfolding c by (simp add: finish_def)
qed

theorem tool_failures_pass_through_witness:
  "(\<forall>c. which ok_env c = None) \<and> find_ghostscript_exe ok_env = None
   \<and> ghostscript_compress ok_env [37, 80, 68, 70] False = [37, 80, 68, 70]
   \<and> (\<exists>e. pike ok_env [37, 80, 68, 70] = Inl e)
   \<and> pikepdf_optimize ok_env [37, 80, 68, 70] = [37, 80, 68, 70]
   \<and> open_src ok_env = Inr 3
   \<and> select_keep None 3 = Inr (map int [0..<3], ''Processing all pages...'')
   \<and> fst (copy_pages ok_env (map int [0..<3]) (init_state queued_job)) = None
   \<and> collect_xrefs ok_env = Inr [7, 9]
   \<and> save_work ok_env = Inr [37, 80, 68, 70]
   \<and> status (cur (process_job ok_env None False (init_state queued_job))) = ''done''
   \<and> progress (cur (process_job ok_env None False (init_state queued_job))) = 100
   \<and> output_buffer (cur (process_job ok_env None False (init_state queued_job)))
       = Some [37, 80, 68, 70]"
proof -
  let ?s = "init_state queued_job"
  let ?b = "[37, 80, 68, 70] :: bytes"
  note t = tool_failures_pass_through[where E = ok_env and b = ?b and ex = False and n = 3
      and xp = None and keep = "map int [0..<3]" and l = "''Processing all pages...''"
      and st = ?s]
  have w: "\<forall>c. which ok_env c = None" by (simp add: ok_env_def)
  have f: "find_ghostscript_exe ok_env = None"
    using t[THEN conjunct2, THEN conjunct1] w by blast
  have g: "ghostscript_compress ok_env ?b False = ?b"
    using t[THEN conjunct1] f by blast
  have p: "\<exists>e. pike ok_env ?b = Inl e" by (simp add: ok_env_def)
  have q: "pikepdf_optimize ok_env ?b = ?b"
    using t[THEN conjunct2, THEN conjunct2, THEN conjunct2, THEN conjunct1] p by blast
  have o: "open_src ok_env = Inr 3" "collect_xrefs ok_env = Inr [7, 9]" "save_work ok_env = Inr ?b"
    by (simp_all add: ok_env_def)
  have s: "select_keep None 3 = Inr (map int [0..<3], ''Processing all pages...'')"
    by (rule select_keep_all)
  have c: "fst (copy_pages ok_env (map int [0..<3]) ?s) = None"
    by (simp add: copy_pages_all_ok ok_env_def)
  have x: "\<exists>xs. collect_xrefs ok_env = Inr xs" using o(2) by blast
  have d: "status (cur (process_job ok_env None False ?s)) = ''done''
         \<and> progress (cur (process_job ok_env None False ?s)) = 100
         \<and> output_buffer (cur (process_job ok_env None False ?s)) = Some ?b"
    using t[THEN conjunct2, THEN conjunct2, THEN conjunct2, THEN conjunct2] o(1) s c x o(3) f p
    by blast
  show ?thesis using w f g p q o s c d by blast
qed

section \<open>The eviction sweep\<close>

lemma evict_map_of:
  "map_of (jobs_of (evict r ks (jobs, fl))) k = (if k \<in> set ks then None else map_of jobs k)"
proof (induction ks arbitrary: jobs fl)
  case Nil
  show ?case by (simp add: jobs_of_def)
next
  case (Cons jid rest)
  show ?case
  proof (cases "map_of jobs jid")
    case None
    then show ?thesis using Cons.IH[of jobs fl] by auto
  next
    case (Some j)
    then show ?thesis
      using Cons.IH[of "AList.delete jid jobs"] by (auto simp: AList.delete_conv')
  qed
qed

lemma cleanup_temp_file_subset: "fst (cleanup_temp_file r fp fl) \<subseteq> fst fl"
  by (auto simp: cleanup_temp_file_def split: option.splits if_splits)

lemma cleanup_temp_file_log: "set (snd fl) \<subseteq> set (snd (cleanup_temp_file r fp fl))"
  by (auto simp: cleanup_temp_file_def split: option.splits if_splits)

lemma cleanup_temp_file_removed:
  "p \<noteq> [] \<Longrightarrow> r p = None \<Longrightarrow> p \<notin> fst (cleanup_temp_file r (Some p) fl)"
  by (simp add: cleanup_temp_file_def)

lemma cleanup_temp_file_only:
  "q \<in> fst fl \<Longrightarrow> q \<notin> fst (cleanup_temp_file r (Some p) fl) \<Longrightarrow> q = p \<and> r p = None"
  by (auto simp: cleanup_temp_file_def split: option.splits if_splits)

lemma cleanup_temp_file_keeps:
  "q \<in> fst fl \<Longrightarrow> r q \<noteq> None \<Longrightarrow> q \<in> fst (cleanup_temp_file r fp fl)"
  by (auto simp: cleanup_temp_file_def split: option.splits if_splits)

lemma cleanup_temp_file_warns:
  "p \<noteq> [] \<Longrightarrow> p \<in> fst fl \<Longrightarrow> r p = Some e
     \<Longrightarrow> (WARNING, cleanup_failed p e) \<in> set (snd (cleanup_temp_file r (Some p) fl))"
  by (simp add: cleanup_temp_file_def)

lemma cleanup_temp_file_quiet:
  "\<forall>p. r p = None \<Longrightarrow> snd (cleanup_temp_file r fp fl) = snd fl"
  by (auto simp: cleanup_temp_file_def split: option.splits if_splits)

lemma evict_Cons_Some:
  "map_of jobs jid = Some j \<Longrightarrow>
     evict r (jid # rest) (jobs, fl) = evict r rest (AList.delete jid jobs, after_pop r j fl)"
  by simp

lemma evict_Cons_None:
  "map_of jobs jid = None \<Longrightarrow> evict r (jid # rest) (jobs, fl) = evict r rest (jobs, fl)"
  by simp

lemma after_pop_subset: "fst (after_pop r j fl) \<subseteq> fst fl"
  using cleanup_temp_file_subset by (simp add: after_pop_def)

lemma after_pop_log: "set (snd fl) \<subseteq> set (snd (after_pop r j fl))"
  using cleanup_temp_file_log by (simp add: after_pop_def)

lemma after_pop_keeps: "q \<in> fst fl \<Longrightarrow> r q \<noteq> None \<Longrightarrow> q \<in> fst (after_pop r j fl)"
  using cleanup_temp_file_keeps by (simp add: after_pop_def)

lemma after_pop_quiet: "\<forall>p. r p = None \<Longrightarrow> snd (after_pop r j fl) = snd fl"
  using cleanup_temp_file_quiet by (simp add: after_pop_def)

lemma evict_files_subset: "files_of (evict r ks (jobs, fl)) \<subseteq> fst fl"
proof (induction ks arbitrary: jobs fl)
  case Nil
  show ?case by (simp add: files_of_def)
next
  case (Cons jid rest)
  show ?case
  proof (cases "map_of jobs jid")
    case None
    then show ?thesis using Cons.IH[of jobs fl] by simp
  next
    case (Some j)
    have "files_of (evict r rest (AList.delete jid jobs, after_pop r j fl)) \<subseteq> fst (after_pop r j fl)"
      by (rule Cons.IH)
    then show ?thesis
      unfolding evict_Cons_Some[OF Some] using after_pop_subset[of r j fl] by blast
  qed
qed

lemma evict_log_mono: "set (snd fl) \<subseteq> set (log_of (evict r ks (jobs, fl)))"
proof (induction ks arbitrary: jobs fl)
  case Nil
  show ?case by (simp add: log_of_def)
next
  case (Cons jid rest)
  show ?case
  proof (cases "map_of jobs jid")
    case None
    then show ?thesis using Cons.IH[of fl jobs] by simp
  next
    case (Some j)
    have "set (snd (after_pop r j fl))
            \<subseteq> set (log_of (evict r rest (AList.delete jid jobs, after_pop r j fl)))"
      by (rule Cons.IH)
    then show ?thesis
      unfolding evict_Cons_Some[OF Some] using after_pop_log[of fl r j] by blast
  qed
qed

lemma evict_quiet:
  "\<forall>p. r p = None \<Longrightarrow> log_of (evict r ks (jobs, fl)) = snd fl"
proof (induction ks arbitrary: jobs fl)
  case Nil
  show ?case by (simp add: log_of_def)
next
  case (Cons jid rest)
  show ?case
  proof (cases "map_of jobs jid")
    case None
    then show ?thesis using Cons.IH[OF Cons.prems, of jobs fl] by simp
  next
    case (Some j)
    show ?thesis
      unfolding evict_Cons_Some[OF Some]
      using Cons.IH[OF Cons.prems, of "AList.delete jid jobs" "after_pop r j fl"]
        after_pop_quiet[OF Cons.prems, of j fl] by simp
  qed
qed

lemma evict_keeps_file:
  "q \<in> fst fl \<Longrightarrow> r q \<noteq> None \<Longrightarrow> q \<in> files_of (evict r ks (jobs, fl))"
proof (induction ks arbitrary: jobs fl)
  case Nil
  then show ?case by (simp add: files_of_def)
next
  case (Cons jid rest)
  show ?case
  proof (cases "map_of jobs jid")
    case None
    then show ?thesis using Cons.IH[OF Cons.prems, of jobs] by simp
  next
    case (Some j)
    have "q \<in> fst (after_pop r j fl)" using Cons.prems by (rule after_pop_keeps)
    from Cons.IH[OF this Cons.prems(2)] show ?thesis
      unfolding evict_Cons_Some[OF Some] .
  qed
qed

lemma evict_removes_file:
  "k \<in> set ks \<Longrightarrow> map_of jobs k = Some j \<Longrightarrow> input_path j \<noteq> [] \<Longrightarrow> r (input_path j) = None
     \<Longrightarrow> input_path j \<notin> files_of (evict r ks (jobs, fl))"
proof (induction ks arbitrary: jobs fl)
  case Nil
  then show ?case by simp
next
  case (Cons jid rest)
  show ?case
  proof (cases "jid = k")
    case True
    have m: "map_of jobs jid = Some j" using True Cons.prems(2) by simp
    have "input_path j \<notin> fst (after_pop r j fl)"
      using Cons.prems(3,4) by (simp add: after_pop_def cleanup_temp_file_removed)
    moreover have "files_of (evict r rest (AList.delete jid jobs, after_pop r j fl))
                     \<subseteq> fst (after_pop r j fl)"
      by (rule evict_files_subset)
    ultimately show ?thesis unfolding evict_Cons_Some[OF m] by blast
  next
    case False
    then have kr: "k \<in> set rest" using Cons.prems(1) by simp
    show ?thesis
    proof (cases "map_of jobs jid")
      case None
      then show ?thesis using Cons.IH[OF kr Cons.prems(2,3,4), of fl] by simp
    next
      case (Some j')
      have m: "map_of (AList.delete jid jobs) k = Some j"
        using False Cons.prems(2) by (simp add: AList.delete_conv')
      show ?thesis
        unfolding evict_Cons_Some[OF Some] by (rule Cons.IH[OF kr m Cons.prems(3,4)])
    qed
  qed
qed

lemma evict_warns:
  "k \<in> set ks \<Longrightarrow> map_of jobs k = Some j \<Longrightarrow> input_path j \<noteq> [] \<Longrightarrow> input_path j \<in> fst fl
     \<Longrightarrow> r (input_path j) = Some e
     \<Longrightarrow> (WARNING, cleanup_failed (input_path j) e) \<in> set (log_of (evict r ks (jobs, fl)))"
proof (induction ks arbitrary: jobs fl)
  case Nil
  then show ?case by simp
next
  case (Cons jid rest)
  show ?case
  proof (cases "jid = k")
    case True
    have m: "map_of jobs jid = Some j" using True Cons.prems(2) by simp
    have "(WARNING, cleanup_failed (input_path j) e) \<in> set (snd (after_pop r j fl))"
      using Cons.prems(3,4,5) by (simp add: after_pop_def cleanup_temp_file_warns)
    then show ?thesis
      unfolding evict_Cons_Some[OF m]
      using evict_log_mono[of "after_pop r j fl" r rest "AList.delete jid jobs"] by blast
  next
    case False
    then have kr: "k \<in> set rest" using Cons.prems(1) by simp
    show ?thesis
    proof (cases "map_of jobs jid")
      case None
      then show ?thesis using Cons.IH[OF kr Cons.prems(2,3,4,5)] by simp
    next
      case (Some j')
      have m: "map_of (AList.delete jid jobs) k = Some j"
        using False Cons.prems(2) by (simp add: AList.delete_conv')
      have f: "input_path j \<in> fst (after_pop r j' fl)"
        using Cons.prems(4,5) by (intro after_pop_keeps) simp_all
      show ?thesis
        unfolding evict_Cons_Some[OF Some] by (rule Cons.IH[OF kr m Cons.prems(3) f Cons.prems(5)])
    qed
  qed
qed

lemma evict_files_only:
  "q \<in> fst fl \<Longrightarrow> q \<notin> files_of (evict r ks (jobs, fl))
     \<Longrightarrow> \<exists>k \<in> set ks. \<exists>j. map_of jobs k = Some j \<and> input_path j = q \<and> r q = None"
proof (induction ks arbitrary: jobs fl)
  case Nil
  then show ?case by (simp add: files_of_def)
next
  case (Cons jid rest)
  show ?case
  proof (cases "map_of jobs jid")
    case None
    then have "q \<notin> files_of (evict r rest (jobs, fl))" using Cons.prems(2) by simp
    from Cons.IH[OF Cons.prems(1) this] show ?thesis by auto
  next
    case (Some j)
    have e: "q \<notin> files_of (evict r rest (AList.delete jid jobs, after_pop r j fl))"
      using Cons.prems(2) unfolding evict_Cons_Some[OF Some] .
    show ?thesis
    proof (cases "q \<in> fst (after_pop r j fl)")
      case True
      from Cons.IH[OF True e] obtain k j' where
        k: "k \<in> set rest" "map_of (AList.delete jid jobs) k = Some j'" "input_path j' = q" "r q = None"
        by blast
      have "map_of jobs k = Some j'"
        using k(2) by (simp add: AList.delete_conv' split: if_splits)
      then show ?thesis using k by auto
    next
      case False
      then have "q = input_path j \<and> r (input_path j) = None"
        using Cons.prems(1) cleanup_temp_file_only[of q fl r "input_path j"]
        by (auto simp: after_pop_def split: if_splits)
      then show ?thesis using Some by auto
    qed
  qed
qed

lemma to_remove_iff:
  "(k \<in> set (to_remove now max_age_sec jobs)) =
     (\<exists>j. (k, j) \<in> set jobs \<and> now - created_at j > real_of_int max_age_sec)"
  by (force simp: to_remove_def)

lemma to_remove_old:
  "map_of jobs k = Some j \<Longrightarrow> now - created_at j > real_of_int max_age_sec
     \<Longrightarrow> k \<in> set (to_remove now max_age_sec jobs)"
  unfolding to_remove_iff by (blast dest: map_of_SomeD)

lemma to_remove_young:
  "distinct (map fst jobs) \<Longrightarrow> map_of jobs k = Some j
     \<Longrightarrow> \<not> now - created_at j > real_of_int max_age_sec
     \<Longrightarrow> k \<notin> set (to_remove now max_age_sec jobs)"
proof
  assume d: "distinct (map fst jobs)" and m: "map_of jobs k = Some j"
    and y: "\<not> now - created_at j > real_of_int max_age_sec"
    and "k \<in> set (to_remove now max_age_sec jobs)"
  then obtain j' where j': "(k, j') \<in> set jobs" "now - created_at j' > real_of_int max_age_sec"
    unfolding to_remove_iff by blast
  have "map_of jobs k = Some j'" using d j'(1) by (rule map_of_is_SomeI)
  then show False using m y j'(2) by simp
qed

text \<open>
  Claim C9, as amended. After \<open>cleanup_old_jobs\<close>, every job whose age exceeds \<open>max_age_sec\<close> is
  gone from the registry whatever its status, and \<open>status\<close> and \<open>download\<close> answer 404 for its
  id. Its input file no longer exists provided \<open>os.remove\<close> did not raise for it; if
  \<open>os.remove\<close> raises, the file stays and a warning with the path and the exception is
  logged. Every other job is still registered with the same record, no job appears, the
  only files removed are input files of evicted jobs, and nothing is taken from the log.
  The registry is a dictionary: no id occurs twice.
\<close>

theorem eviction_sweep:
  assumes "distinct (map fst jobs)"
  shows "(\<forall>jid j. map_of jobs jid = Some j \<and> now - created_at j > real_of_int max_age_sec \<longrightarrow>
            map_of (jobs_of (cleanup_old_jobs os_remove now max_age_sec (jobs, files, lg))) jid = None
            \<and> status_route (jobs_of (cleanup_old_jobs os_remove now max_age_sec (jobs, files, lg))) jid
                = Inl (404, ''Job not found'')
            \<and> download_route (jobs_of (cleanup_old_jobs os_remove now max_age_sec (jobs, files, lg))) jid
                = Inl (404, ''File not ready or found'')
            \<and> (input_path j \<noteq> [] \<and> os_remove (input_path j) = None \<longrightarrow>
                 input_path j \<notin> files_of (cleanup_old_jobs os_remove now max_age_sec (jobs, files, lg)))
            \<and> (\<forall>e. os_remove (input_path j) = Some e \<and> input_path j \<in> files \<longrightarrow>
                 input_path j \<in> files_of (cleanup_old_jobs os_remove now max_age_sec (jobs, files, lg))
                 \<and> (input_path j \<noteq> [] \<longrightarrow>
                      (WARNING, cleanup_failed (input_path j) e)
                        \<in> set (log_of (cleanup_old_jobs os_remove now max_age_sec (jobs, files, lg))))))
       \<and> (\<forall>jid j. map_of jobs jid = Some j \<and> \<not> now - created_at j > real_of_int max_age_sec \<longrightarrow>
            map_of (jobs_of (cleanup_old_jobs os_remove now max_age_sec (jobs, files, lg))) jid = Some j)
       \<and> (\<forall>jid. map_of jobs jid = None \<longrightarrow>
            map_of (jobs_of (cleanup_old_jobs os_remove now max_age_sec (jobs, files, lg))) jid = None)
       \<and> files_of (cleanup_old_jobs os_remove now max_age_sec (jobs, files, lg)) \<subseteq> files
       \<and> (\<forall>q. q \<in> files \<and> q \<notin> files_of (cleanup_old_jobs os_remove now max_age_sec (jobs, files, lg)) \<longrightarrow>
            (\<exists>jid j. map_of jobs jid = Some j \<and> now - created_at j > real_of_int max_age_sec
                \<and> input_path j = q))
       \<and> set lg \<subseteq> set (log_of (cleanup_old_jobs os_remove now max_age_sec (jobs, files, lg)))
       \<and> ((\<forall>p. os_remove p = None) \<longrightarrow>
            log_of (cleanup_old_jobs os_remove now max_age_sec (jobs, files, lg)) = lg)"
proof -
  let ?ks = "to_remove now max_age_sec jobs"
  let ?w = "cleanup_old_jobs os_remove now max_age_sec (jobs, files, lg)"
  have w: "?w = evict os_remove ?ks (jobs, (files, lg))" by (simp add: cleanup_old_jobs_def)
  have m: "\<And>k. map_of (jobs_of ?w) k = (if k \<in> set ?ks then None else map_of jobs k)"
    unfolding w by (rule evict_map_of)
  have old: "map_of (jobs_of ?w) jid = None
            \<and> status_route (jobs_of ?w) jid = Inl (404, ''Job not found'')
            \<and> download_route (jobs_of ?w) jid = Inl (404, ''File not ready or found'')
            \<and> (input_path j \<noteq> [] \<and> os_remove (input_path j) = None \<longrightarrow> input_path j \<notin> files_of ?w)
            \<and> (\<forall>e. os_remove (input_path j) = Some e \<and> input_path j \<in> files \<longrightarrow>
                 input_path j \<in> files_of ?w
                 \<and> (input_path j \<noteq> [] \<longrightarrow>
                      (WARNING, cleanup_failed (input_path j) e) \<in> set (log_of ?w)))"
    if h: "map_of jobs jid = Some j \<and> now - created_at j > real_of_int max_age_sec" for jid j
  proof -
    have k: "jid \<in> set ?ks" using h by (blast intro: to_remove_old)
    have a: "map_of (jobs_of ?w) jid = None" using k by (simp only: m if_True)
    have b: "status_route (jobs_of ?w) jid = Inl (404, ''Job not found'')"
      unfolding status_route_def a by simp
    have c: "download_route (jobs_of ?w) jid = Inl (404, ''File not ready or found'')"
      unfolding download_route_def a by simp
    have d: "input_path j \<notin> files_of ?w" if "input_path j \<noteq> [] \<and> os_remove (input_path j) = None"
      unfolding w
      by (rule evict_removes_file[where r = os_remove, OF k h[THEN conjunct1]
            that[THEN conjunct1] that[THEN conjunct2]])
    have e: "input_path j \<in> files_of ?w
             \<and> (input_path j \<noteq> [] \<longrightarrow> (WARNING, cleanup_failed (input_path j) e) \<in> set (log_of ?w))"
      if t: "os_remove (input_path j) = Some e \<and> input_path j \<in> files" for e
    proof
      have f: "input_path j \<in> fst (files, lg)" using t by simp
      have n: "os_remove (input_path j) \<noteq> None" using t by simp
      show "input_path j \<in> files_of ?w" unfolding w
        by (rule evict_keeps_file[where r = os_remove and fl = "(files, lg)", OF f n])
      show "input_path j \<noteq> [] \<longrightarrow> (WARNING, cleanup_failed (input_path j) e) \<in> set (log_of ?w)"
      proof
        assume ne: "input_path j \<noteq> []"
        show "(WARNING, cleanup_failed (input_path j) e) \<in> set (log_of ?w)"
          unfolding w
          by (rule evict_warns[where r = os_remove and fl = "(files, lg)",
                OF k h[THEN conjunct1] ne f t[THEN conjunct1]])
      qed
    qed
    show ?thesis using a b c d e by blast
  qed
  have young: "map_of (jobs_of ?w) jid = Some j"
    if h: "map_of jobs jid = Some j \<and> \<not> now - created_at j > real_of_int max_age_sec" for jid j
  proof -
    have "jid \<notin> set ?ks"
      by (rule to_remove_young[OF assms h[THEN conjunct1] h[THEN conjunct2]])
    then show ?thesis using h by (simp only: m if_False)
  qed
  have none: "map_of (jobs_of ?w) jid = None" if "map_of jobs jid = None" for jid
    using that by (simp add: m)
  have sub: "files_of ?w \<subseteq> files" unfolding w using evict_files_subset[of os_remove ?ks jobs "(files, lg)"] by simp
  have only: "\<exists>jid j. map_of jobs jid = Some j \<and> now - created_at j > real_of_int max_age_sec
                \<and> input_path j = q"
    if t: "q \<in> files \<and> q \<notin> files_of ?w" for q
  proof -
    have q: "q \<in> fst (files, lg)" using t by simp
    have "q \<notin> files_of (evict os_remove ?ks (jobs, (files, lg)))" using t unfolding w by simp
    from evict_files_only[where r = os_remove and fl = "(files, lg)", OF q this] obtain k j where
      k: "k \<in> set ?ks" "map_of jobs k = Some j" "input_path j = q" by blast
    from k(1) obtain j' where j': "(k, j') \<in> set jobs" "now - created_at j' > real_of_int max_age_sec"
      unfolding to_remove_iff by blast
    have "map_of jobs k = Some j'" using assms j'(1) by (rule map_of_is_SomeI)
    then have "j' = j" using k(2) by simp
    then show ?thesis using k j' by blast
  qed
  have lm: "set lg \<subseteq> set (log_of ?w)"
    unfolding w using evict_log_mono[of "(files, lg)" os_remove ?ks jobs] by simp
  have quiet: "log_of ?w = lg" if "\<forall>p. os_remove p = None"
    unfolding w using evict_quiet[OF that, of ?ks jobs "(files, lg)"] by simp
  show ?thesis using old young none sub only lm quiet by blast
qed

lemma sample_jobs_facts:
  "distinct (map fst sample_jobs)"
  "map_of sample_jobs ''j1'' = Some queued_job"
  "map_of sample_jobs ''j2'' = Some (new_job 4000 ''/tmp/tmpcd34.pdf'')"
  "5000 - created_at queued_job > real_of_int 3600"
  "\<not> 5000 - created_at (new_job 4000 ''/tmp/tmpcd34.pdf'') > real_of_int 3600"
  "input_path queued_job = ''/tmp/tmpab12.pdf''"
  by (simp_all add: sample_jobs_def queued_job_def new_job_def)

theorem eviction_sweep_witness:
  "distinct (map fst sample_jobs)
   \<and> map_of sample_jobs ''j1'' = Some queued_job
   \<and> 5000 - created_at queued_job > real_of_int 3600
   \<and> map_of (jobs_of (cleanup_old_jobs remove_ok 5000 3600 (sample_jobs, sample_files, []))) ''j1'' = None
   \<and> status_route (jobs_of (cleanup_old_jobs remove_ok 5000 3600 (sample_jobs, sample_files, []))) ''j1''
        = Inl (404, ''Job not found'')
   \<and> download_route (jobs_of (cleanup_old_jobs remove_ok 5000 3600 (sample_jobs, sample_files, []))) ''j1''
        = Inl (404, ''File not ready or found'')
   \<and> ''/tmp/tmpab12.pdf'' \<in> sample_files
   \<and> ''/tmp/tmpab12.pdf''
        \<notin> files_of (cleanup_old_jobs remove_ok 5000 3600 (sample_jobs, sample_files, []))
   \<and> log_of (cleanup_old_jobs remove_ok 5000 3600 (sample_jobs, sample_files, [])) = []
   \<and> map_of sample_jobs ''j2'' = Some (new_job 4000 ''/tmp/tmpcd34.pdf'')
   \<and> \<not> 5000 - created_at (new_job 4000 ''/tmp/tmpcd34.pdf'') > real_of_int 3600
   \<and> map_of (jobs_of (cleanup_old_jobs remove_ok 5000 3600 (sample_jobs, sample_files, []))) ''j2''
        = Some (new_job 4000 ''/tmp/tmpcd34.pdf'')
   \<and> remove_locked ''/tmp/tmpab12.pdf'' = Some (OtherError ''Permission denied'')
   \<and> ''/tmp/tmpab12.pdf''
        \<in> files_of (cleanup_old_jobs remove_locked 5000 3600 (sample_jobs, sample_files, []))
   \<and> (WARNING, ''Failed to cleanup temp file /tmp/tmpab12.pdf: Permission denied'')
        \<in> set (log_of (cleanup_old_jobs remove_locked 5000 3600 (sample_jobs, sample_files, [])))"
proof -
  let ?w = "cleanup_old_jobs remove_ok 5000 3600 (sample_jobs, sample_files, [])"
  let ?v = "cleanup_old_jobs remove_locked 5000 3600 (sample_jobs, sample_files, [])"
  note t = eviction_sweep[OF sample_jobs_facts(1), where now = 5000 and max_age_sec = 3600
      and os_remove = remove_ok and files = sample_files and lg = "[]"]
  note u = eviction_sweep[OF sample_jobs_facts(1), where now = 5000 and max_age_sec = 3600
      and os_remove = remove_locked and files = sample_files and lg = "[]"]
  have o: "map_of sample_jobs ''j1'' = Some queued_job
           \<and> 5000 - created_at queued_job > real_of_int 3600"
    using sample_jobs_facts(2,4) by (rule conjI)
  note t1 = t[THEN conjunct1, THEN spec, THEN spec, THEN mp, OF o]
  note u1 = u[THEN conjunct1, THEN spec, THEN spec, THEN mp, OF o]
  have p: "input_path queued_job \<noteq> [] \<and> remove_ok (input_path queued_job) = None"
    by (simp add: sample_jobs_facts(6) remove_ok_def)
  have f0: "input_path queued_job \<notin> files_of ?w"
    by (rule t1[THEN conjunct2, THEN conjunct2, THEN conjunct2, THEN conjunct1, THEN mp, OF p])
  have f: "''/tmp/tmpab12.pdf'' \<notin> files_of ?w"
    using f0 unfolding sample_jobs_facts(6) .
  have "\<forall>p. remove_ok p = None" by (simp add: remove_ok_def)
  then have l: "log_of ?w = []"
    using t[THEN conjunct2, THEN conjunct2, THEN conjunct2, THEN conjunct2, THEN conjunct2,
        THEN conjunct2] by blast
  have y: "map_of sample_jobs ''j2'' = Some (new_job 4000 ''/tmp/tmpcd34.pdf'')
           \<and> \<not> 5000 - created_at (new_job 4000 ''/tmp/tmpcd34.pdf'') > real_of_int 3600"
    using sample_jobs_facts(3,5) by (rule conjI)
  note t2 = t[THEN conjunct2, THEN conjunct1, THEN spec, THEN spec, THEN mp, OF y]
  have g: "''/tmp/tmpab12.pdf'' \<in> sample_files" by (simp add: sample_files_def)
  have rl: "remove_locked ''/tmp/tmpab12.pdf'' = Some (OtherError ''Permission denied'')"
    by (simp add: remove_locked_def)
  have q: "remove_locked (input_path queued_job) = Some (OtherError ''Permission denied'')
           \<and> input_path queued_job \<in> sample_files"
    using rl g by (simp add: sample_jobs_facts(6))
  note u2 = u1[THEN conjunct2, THEN conjunct2, THEN conjunct2, THEN conjunct2, THEN spec,
      THEN mp, OF q]
  have k0: "input_path queued_job \<in> files_of ?v" by (rule u2[THEN conjunct1])
  have k: "''/tmp/tmpab12.pdf'' \<in> files_of ?v" using k0 unfolding sample_jobs_facts(6) .
  have "input_path queued_job \<noteq> []" using p by simp
  then have "(WARNING, cleanup_failed (input_path queued_job) (OtherError ''Permission denied''))
          \<in> set (log_of ?v)"
    using u2[THEN conjunct2] by blast
  then have wn: "(WARNING, ''Failed to cleanup temp file /tmp/tmpab12.pdf: Permission denied'')
          \<in> set (log_of ?v)"
    by (simp add: sample_jobs_facts(6) cleanup_failed_def)
  show ?thesis
    using sample_jobs_facts(1) o t1[THEN conjunct1] t1[THEN conjunct2, THEN conjunct1]
      t1[THEN conjunct2, THEN conjunct2, THEN conjunct1] g f l y t2 rl k wn
    by blast
qed

text \<open>
  Claim C9 as first stated does not hold: \<open>cleanup_temp_file\<close> catches the exception of
  \<open>os.remove\<close>. With a locked file the job of the sample registry that has waited too long is
  evicted, and its temporary input file is still there after the sweep.
\<close>

theorem eviction_sweep_counterexample:
  "map_of sample_jobs ''j1'' = Some queued_job
   \<and> 5000 - created_at queued_job > real_of_int 3600
   \<and> input_path queued_job = ''/tmp/tmpab12.pdf''
   \<and> map_of (jobs_of (cleanup_old_jobs remove_locked 5000 3600 (sample_jobs, sample_files, [])))
        ''j1'' = None
   \<and> ''/tmp/tmpab12.pdf''
        \<in> files_of (cleanup_old_jobs remove_locked 5000 3600 (sample_jobs, sample_files, []))"
  by (simp add: cleanup_old_jobs_def to_remove_def sample_jobs_def sample_files_def queued_job_def
      new_job_def cleanup_temp_file_def remove_locked_def after_pop_def jobs_of_def files_of_def)

section \<open>Image recompression\<close>












end
